theory Spec2Isabelle
  imports Main "HOL-Library.Word" "HOL-Library.Multiset"
begin

section \<open>Exceptions, arrays and matrices\<close>

text \<open>
  The Python exceptions raised by \<^verbatim>\<open>pyUSID/io/hdf_utils.py\<close> and by the numpy
  operations it calls.  A function that can raise returns \<open>error + 'a\<close>, with
  \<open>Inl\<close> for the exception.
\<close>

datatype error = TypeError | ValueError | KeyError | IndexError | AttributeError

definition bind :: "error + 'a \<Rightarrow> ('a \<Rightarrow> error + 'b) \<Rightarrow> error + 'b" where
  "bind r f = (case r of Inl e \<Rightarrow> Inl e | Inr x \<Rightarrow> f x)"

text \<open>
  A numpy array of any rank: its shape and its elements in C order.  The main data
  (\<^verbatim>\<open>h5_main\<close>, \<^verbatim>\<open>data_n_dim\<close>) is such an array.
\<close>

record 'a ndarray =
  shape :: "nat list"
  flat :: "'a list"

definition wf_array :: "'a ndarray \<Rightarrow> bool" where
  "wf_array a = (length (flat a) = prod_list (shape a))"

definition ndim :: "'a ndarray \<Rightarrow> nat" where
  "ndim a = length (shape a)"

definition np_size :: "'a ndarray \<Rightarrow> nat" where
  "np_size a = prod_list (shape a)"

text \<open>C-order strides (in elements), the multi-index of a flat position, and the flat
  position that a multi-index has under given strides.\<close>

fun strides :: "nat list \<Rightarrow> nat list" where
  "strides [] = []"
| "strides (d # ds) = prod_list ds # strides ds"

fun unravel :: "nat list \<Rightarrow> nat \<Rightarrow> nat list" where
  "unravel [] k = []"
| "unravel (d # ds) k = (k div prod_list ds) # unravel ds (k mod prod_list ds)"

definition offset :: "nat list \<Rightarrow> nat list \<Rightarrow> nat" where
  "offset idx strd = sum_list (map2 (*) idx strd)"

text \<open>\<^verbatim>\<open>a.reshape(new_shape)\<close> with an explicit shape: numpy raises ValueError unless the
  element counts agree; the C-order contents are kept.\<close>

definition np_reshape :: "'a ndarray \<Rightarrow> nat list \<Rightarrow> error + 'a ndarray" where
  "np_reshape a new_shape =
     (if prod_list new_shape = np_size a then Inr (a\<lparr>shape := new_shape\<rparr>) else Inl ValueError)"

text \<open>\<^verbatim>\<open>a.reshape(dims + [-1])\<close>: the last extent is inferred. numpy raises ValueError
  when the known extents multiply to zero or do not divide the element count.\<close>

definition np_reshape_infer :: "'a ndarray \<Rightarrow> nat list \<Rightarrow> error + 'a ndarray" where
  "np_reshape_infer a dims =
     (if prod_list dims = 0 \<or> np_size a mod prod_list dims \<noteq> 0 then Inl ValueError
      else Inr (a\<lparr>shape := dims @ [np_size a div prod_list dims]\<rparr>))"

text \<open>\<^verbatim>\<open>a.transpose(axes)\<close>: axis \<open>j\<close> of the result is axis \<open>axes ! j\<close> of \<open>a\<close>; numpy
  raises ValueError unless \<open>axes\<close> is a permutation of \<open>range(a.ndim)\<close>.  The result is
  the view with permuted strides, read out in C order.\<close>

definition transpose_axes :: "'a ndarray \<Rightarrow> nat list \<Rightarrow> 'a ndarray" where
  "transpose_axes a axes =
     (let new_shape = map (\<lambda>j. shape a ! j) axes;
          new_strides = map (\<lambda>j. strides (shape a) ! j) axes
      in \<lparr>shape = new_shape,
          flat = map (\<lambda>k. flat a ! offset (unravel new_shape k) new_strides)
                   [0..<prod_list new_shape]\<rparr>)"

definition np_transpose :: "'a ndarray \<Rightarrow> nat list \<Rightarrow> error + 'a ndarray" where
  "np_transpose a axes =
     (if sort axes = [0..<ndim a] then Inr (transpose_axes a axes) else Inl ValueError)"

text \<open>
  The ancillary index and value datasets are two-dimensional by the docstrings
  (\<^verbatim>\<open>ds_spec : 2D HDF5 dataset or numpy array\<close>); a matrix is kept with its two
  extents and its elements in row-major order.
\<close>

record 'a matrix =
  nrows :: nat
  ncols :: nat
  elems :: "'a list"

definition wf_matrix :: "'a matrix \<Rightarrow> bool" where
  "wf_matrix m = (length (elems m) = nrows m * ncols m)"

definition msize :: "'a matrix \<Rightarrow> nat" where
  "msize m = nrows m * ncols m"

definition mrow :: "'a matrix \<Rightarrow> nat \<Rightarrow> 'a list" where
  "mrow m i = take (ncols m) (drop (i * ncols m) (elems m))"

definition mrows :: "'a matrix \<Rightarrow> 'a list list" where
  "mrows m = map (mrow m) [0..<nrows m]"

definition of_rows :: "nat \<Rightarrow> 'a list list \<Rightarrow> 'a matrix" where
  "of_rows c rs = \<lparr>nrows = length rs, ncols = c, elems = concat rs\<rparr>"

text \<open>\<^verbatim>\<open>np.transpose(m)\<close> of a 2-D array.\<close>

definition mtranspose :: "'a matrix \<Rightarrow> 'a matrix" where
  "mtranspose m =
     \<lparr>nrows = ncols m, ncols = nrows m,
      elems = concat (map (\<lambda>j. map (\<lambda>i. elems m ! (i * ncols m + j)) [0..<nrows m])
                        [0..<ncols m])\<rparr>"

text \<open>\<^verbatim>\<open>INDICES_DTYPE\<close> is imported from \<^verbatim>\<open>write_utils\<close>; index matrices hold unsigned
  32-bit integers.\<close>

type_synonym index = "32 word"

section \<open>Dimension order analysis\<close>

text \<open>
  \<^verbatim>\<open>np.argsort(xs)\<close>, called with the default kind: a permutation of the positions of \<open>xs\<close>
  that puts the entries in ascending order. In which order it leaves the positions of
  equal entries numpy does not say, and it differs between versions and processors. The
  argsort in use is therefore a parameter of every function that sorts, and
  \<open>is_argsort\<close> says all that is known of it. One such function is \<open>stable_argsort\<close>, which
  keeps the positions of equal entries in ascending order.
\<close>

definition is_argsort :: "(nat list \<Rightarrow> nat list) \<Rightarrow> bool" where
  "is_argsort argsort =
     (\<forall>xs. mset (argsort xs) = mset [0..<length xs] \<and> sorted (map (\<lambda>i. xs ! i) (argsort xs)))"

definition stable_argsort :: "nat list \<Rightarrow> nat list" where
  "stable_argsort xs = sort_key (\<lambda>i. xs ! i) [0..<length xs]"

text \<open>\<^verbatim>\<open>len(np.unique(row))\<close>: the number of distinct entries.\<close>

definition n_unique :: "'a list \<Rightarrow> nat" where
  "n_unique row = length (remdups row)"

text \<open>
  \<^verbatim>\<open>len(np.where([row[i] != row[i - 1] for i in range(len(row))])[0])\<close>: at \<open>i = 0\<close>
  Python's \<^verbatim>\<open>row[-1]\<close> is the last entry.
\<close>

definition change_count :: "'a list \<Rightarrow> nat" where
  "change_count row =
     length (filter (\<lambda>i. row ! i \<noteq> (if i = 0 then last row else row ! (i - 1)))
               [0..<length row])"

text \<open>The guard shared by both analysers: a matrix with more rows than columns is
  transposed first (\<^verbatim>\<open>must be spectroscopic like in shape\<close>).\<close>

definition spec_like :: "'a matrix \<Rightarrow> 'a matrix" where
  "spec_like ds = (if nrows ds > ncols ds then mtranspose ds else ds)"

definition get_sort_order :: "(nat list \<Rightarrow> nat list) \<Rightarrow> 'a matrix \<Rightarrow> nat list" where
  "get_sort_order argsort ds_spec =
     (let ds = spec_like ds_spec;
          change_cnt = map change_count (mrows ds);
          change_sort = rev (argsort change_cnt)
      in change_sort)"

text \<open>
  \<^verbatim>\<open>contains_integers(iter_int, min_val)\<close> of \<^verbatim>\<open>dtype_utils\<close> (not among the sources):
  it is False for an empty list, and on a non-empty list of Python integers it tells
  whether every entry is at least \<open>min_val\<close>. So an empty \<^verbatim>\<open>index_sort\<close> is refused by
  \<^verbatim>\<open>get_dimensionality\<close>.
\<close>

definition contains_integers :: "int list \<Rightarrow> int \<Rightarrow> bool" where
  "contains_integers iter_int min_val =
     (iter_int \<noteq> [] \<and> list_all (\<lambda>x. min_val \<le> x) iter_int)"

definition get_dimensionality :: "'a matrix \<Rightarrow> int list option \<Rightarrow> error + nat list" where
  "get_dimensionality ds_index index_sort =
     (let ds = spec_like ds_index in
      bind (case index_sort of
              None \<Rightarrow> Inr [0..<nrows ds]
            | Some srt \<Rightarrow>
                if \<not> contains_integers srt 0 then Inl ValueError
                else if length (remdups srt) > nrows ds then Inl ValueError
                else if set (map int [0..<nrows ds]) \<noteq> set srt then Inl ValueError
                else Inr (map nat srt))
        (\<lambda>order. Inr (map (\<lambda>i. n_unique (mrow ds i)) order)))"

section \<open>The reshape engine\<close>

text \<open>
  The outcome flag of \<^verbatim>\<open>reshape_to_n_dims\<close>: Python's \<^verbatim>\<open>True\<close>, the string
  \<^verbatim>\<open>'Positions'\<close> and \<^verbatim>\<open>False\<close>.
\<close>

datatype status = Success_True | Success_Positions | Success_False

text \<open>
  Axis labels. For ancillaries passed as numpy arrays the labels are generated:
  \<^verbatim>\<open>'Position Dimension {}'.format(ipos)\<close> and \<^verbatim>\<open>'Spectral Dimension {}'.format(ispec)\<close>;
  the two literals \<^verbatim>\<open>'Position'\<close> and \<^verbatim>\<open>'Spectral Step'\<close> label the array that could not
  be reshaped.
\<close>

datatype label = Position_Dimension nat | Spectral_Dimension nat | Literal string

text \<open>\<^verbatim>\<open>np.arange(n, dtype=INDICES_DTYPE)\<close> as one column (\<^verbatim>\<open>reshape(-1, 1)\<close>) and as
  one row (\<^verbatim>\<open>reshape([1, -1])\<close>).\<close>

definition arange_col :: "nat \<Rightarrow> index matrix" where
  "arange_col n = \<lparr>nrows = n, ncols = 1, elems = map of_nat [0..<n]\<rparr>"

definition arange_row :: "nat \<Rightarrow> index matrix" where
  "arange_row n = \<lparr>nrows = 1, ncols = n, elems = map of_nat [0..<n]\<rparr>"

text \<open>\<^verbatim>\<open>np.argwhere(all_labels == lab).squeeze()\<close> is a single axis number only when the
  label occurs exactly once; otherwise the list of axes is ragged and cannot be used as
  the axes of a transposition.\<close>

definition find_axis :: "label list \<Rightarrow> label \<Rightarrow> error + nat" where
  "find_axis all_labels lab =
     (case filter (\<lambda>i. all_labels ! i = lab) [0..<length all_labels] of
        [i] \<Rightarrow> Inr i
      | _ \<Rightarrow> Inl ValueError)"

fun collect :: "(error + 'a) list \<Rightarrow> error + 'a list" where
  "collect [] = Inr []"
| "collect (r # rs) = bind r (\<lambda>x. bind (collect rs) (\<lambda>xs. Inr (x # xs)))"

text \<open>
  The first half of \<^verbatim>\<open>reshape_to_n_dims\<close>, for \<^verbatim>\<open>h5_main\<close> a numpy array: the shape
  checks against the ancillaries that were passed, and dummy ancillaries for the side
  that was not. With neither ancillary \<^verbatim>\<open>check_if_main\<close> is asked, which is False for
  anything but an HDF5 dataset.
\<close>

definition to_nd_ancillaries ::
  "'a ndarray \<Rightarrow> index matrix option \<Rightarrow> index matrix option \<Rightarrow>
     error + (index matrix \<times> label list \<times> index matrix \<times> label list)" where
  "to_nd_ancillaries h5_main h5_pos h5_spec =
     (if h5_pos = None \<and> h5_spec = None then Inl ValueError
      else
      bind (case h5_pos of
              None \<Rightarrow> Inr ()
            | Some p \<Rightarrow>
                if ndim h5_main < 1 then Inl IndexError
                else if nrows p \<noteq> shape h5_main ! 0 then Inl ValueError
                else Inr ())
       (\<lambda>_. bind (case h5_spec of
              None \<Rightarrow> Inr ()
            | Some s \<Rightarrow>
                if ndim h5_main < 2 then Inl IndexError
                else if ncols s \<noteq> shape h5_main ! 1 then Inl ValueError
                else Inr ())
       (\<lambda>_. bind (case h5_pos of
              None \<Rightarrow>
                if ndim h5_main < 1 then Inl IndexError
                else Inr (arange_col (shape h5_main ! 0), [Position_Dimension 0])
            | Some p \<Rightarrow> Inr (p, map Position_Dimension [0..<ncols p]))
       (\<lambda>(ds_pos, pos_labs). bind (case h5_spec of
              None \<Rightarrow>
                if ndim h5_main < 2 then Inl IndexError
                else Inr (arange_row (shape h5_main ! 1), [Spectral_Dimension 0])
            | Some s \<Rightarrow> Inr (s, map Spectral_Dimension [0..<nrows s]))
       (\<lambda>(ds_spec, spec_labs). Inr (ds_pos, pos_labs, ds_spec, spec_labs))))))"

text \<open>
  \<^verbatim>\<open>reshape_to_n_dims(h5_main, h5_pos, h5_spec, get_labels, sort_dims)\<close>.
  In the position-only fallback with \<^verbatim>\<open>get_labels\<close> the labels are built as
  \<^verbatim>\<open>['Position'] + spec_labs\<close>, a Python list added to a numpy array of strings: numpy
  takes over the addition and has no \<^verbatim>\<open>add\<close> loop for strings, which is a TypeError.
  The fancy indexing \<^verbatim>\<open>pos_labs[pos_sort]\<close> stays in range, since the sort order has at
  most as many entries as there are labels.
\<close>

definition reshape_to_n_dims ::
  "(nat list \<Rightarrow> nat list) \<Rightarrow> 'a ndarray \<Rightarrow> index matrix option \<Rightarrow> index matrix option \<Rightarrow> bool \<Rightarrow> bool \<Rightarrow>
     error + ('a ndarray \<times> status \<times> label list option)" where
  "reshape_to_n_dims argsort h5_main h5_pos h5_spec get_labels sort_dims =
     bind (to_nd_ancillaries h5_main h5_pos h5_spec)
       (\<lambda>(ds_pos, pos_labs, ds_spec, spec_labs).
     let pos_sort = get_sort_order argsort (mtranspose ds_pos);
         spec_sort = get_sort_order argsort ds_spec
     in
     bind (get_dimensionality (mtranspose ds_pos) (Some (map int pos_sort))) (\<lambda>pos_dims.
     bind (get_dimensionality ds_spec (Some (map int spec_sort))) (\<lambda>spec_dims.
     case np_reshape h5_main (rev pos_dims @ rev spec_dims) of
       Inl _ \<Rightarrow>
         (case np_reshape_infer h5_main (rev pos_dims) of
            Inl _ \<Rightarrow>
              Inr (h5_main, Success_False,
                   if get_labels then Some [Literal ''Position'', Literal ''Spectral Step'']
                   else None)
          | Inr ds_Nd \<Rightarrow>
              if get_labels then Inl TypeError
              else Inr (ds_Nd, Success_Positions, None))
     | Inr ds_Nd \<Rightarrow>
         (let sorted_pos = map (\<lambda>i. pos_labs ! i) pos_sort;
              sorted_spec = map (\<lambda>i. spec_labs ! i) spec_sort;
              all_labels = rev sorted_pos @ rev sorted_spec
          in
          bind (collect (map (find_axis all_labels)
                  (if sort_dims then sorted_pos @ sorted_spec else pos_labs @ spec_labs)))
            (\<lambda>swap_axes.
          bind (np_transpose ds_Nd swap_axes) (\<lambda>ds_Nd2.
          Inr (ds_Nd2, Success_True,
               if get_labels then Some (map (\<lambda>j. all_labels ! j) swap_axes) else None)))))))"

text \<open>
  The first half of \<^verbatim>\<open>reshape_from_n_dims\<close>: the ancillary of the side that was not
  passed is built by \<^verbatim>\<open>make_indices_matrix\<close> (of \<^verbatim>\<open>write_utils\<close>, taken as the parameter
  \<open>mk\<close>) from the remaining extents of the data; with both ancillaries the element count
  and the number of axes are checked. A negative stop of the slice
  \<^verbatim>\<open>shape[:ndim - len(spec_dims)]\<close> counts from the end.
\<close>

definition from_nd_ancillaries ::
  "(nat list \<Rightarrow> nat list) \<Rightarrow> (nat list \<Rightarrow> bool \<Rightarrow> error + index matrix) \<Rightarrow> 'a ndarray \<Rightarrow>
     index matrix option \<Rightarrow> index matrix option \<Rightarrow> error + (index matrix \<times> index matrix)" where
  "from_nd_ancillaries argsort mk data_n_dim h5_pos h5_spec =
     (case (h5_pos, h5_spec) of
        (None, None) \<Rightarrow> Inl ValueError
      | (Some ds_pos, None) \<Rightarrow>
          bind (get_dimensionality ds_pos (Some (map int (get_sort_order argsort ds_pos))))
            (\<lambda>pos_dims.
          if \<not> list_all (\<lambda>x. x \<in> set (shape data_n_dim)) pos_dims then Inl ValueError
          else bind (mk (drop (length pos_dims) (shape data_n_dim)) False) (\<lambda>ds_spec.
               Inr (ds_pos, ds_spec)))
      | (None, Some ds_spec) \<Rightarrow>
          bind (get_dimensionality ds_spec (Some (map int (get_sort_order argsort ds_spec))))
            (\<lambda>spec_dims.
          if \<not> list_all (\<lambda>x. x \<in> set (shape data_n_dim)) spec_dims then Inl ValueError
          else bind (mk (if length spec_dims \<le> ndim data_n_dim
                         then take (ndim data_n_dim - length spec_dims) (shape data_n_dim)
                         else take (2 * ndim data_n_dim - length spec_dims) (shape data_n_dim))
                        True) (\<lambda>ds_pos.
               Inr (ds_pos, ds_spec)))
      | (Some ds_pos, Some ds_spec) \<Rightarrow>
          if nrows ds_pos * ncols ds_spec \<noteq> prod_list (shape data_n_dim) then Inl ValueError
          else if ncols ds_pos + nrows ds_spec \<noteq> ndim data_n_dim
                  \<and> \<not> (msize ds_pos = 1 \<or> msize ds_spec = 1) then Inl ValueError
          else Inr (ds_pos, ds_spec))"

text \<open>
  \<^verbatim>\<open>reshape_from_n_dims(data_n_dim, h5_pos, h5_spec)\<close>.
  An ancillary of a single element stands for an axis that was squeezed out: its sort
  order is the Python list \<^verbatim>\<open>[]\<close>. For the spectroscopic side that list then meets
  \<^verbatim>\<open>spec_sort[::-1] + len(pos_sort)\<close>, a list plus an integer, which is a TypeError.
  The cast of the axes to \<^verbatim>\<open>np.uint16\<close> changes nothing: an array has far fewer than
  65536 axes.
\<close>

definition reshape_from_n_dims ::
  "(nat list \<Rightarrow> nat list) \<Rightarrow> (nat list \<Rightarrow> bool \<Rightarrow> error + index matrix) \<Rightarrow> 'a ndarray \<Rightarrow>
     index matrix option \<Rightarrow> index matrix option \<Rightarrow> error + ('a ndarray \<times> bool)" where
  "reshape_from_n_dims argsort mk data_n_dim h5_pos h5_spec =
     (if h5_spec = None \<and> h5_pos = None then Inl ValueError
      else if ndim data_n_dim < 2 then Inr (data_n_dim, True)
      else
      bind (from_nd_ancillaries argsort mk data_n_dim h5_pos h5_spec) (\<lambda>(ds_pos, ds_spec).
      let pos_sort = (if msize ds_pos = 1 then [] else get_sort_order argsort (mtranspose ds_pos));
          pos_sort = (if h5_pos = None then rev pos_sort else pos_sort)
      in
      if msize ds_spec = 1 then Inl TypeError
      else
      let spec_sort = get_sort_order argsort ds_spec;
          spec_sort = (if h5_spec = None then rev spec_sort else spec_sort);
          swap_axes = rev pos_sort @ map (\<lambda>x. x + length pos_sort) (rev spec_sort)
      in
      bind (np_transpose data_n_dim swap_axes) (\<lambda>data_n_dim_2.
      bind (np_reshape data_n_dim_2 [nrows ds_pos, ncols ds_spec]) (\<lambda>ds_2d.
      Inr (ds_2d, True)))))"

section \<open>Validation of a Main dataset\<close>

text \<open>
  What \<^verbatim>\<open>check_if_main\<close> reads of an HDF5 file. An attribute is an object reference, a
  string or another value; an object of the file is a dataset, with its shape and its
  attributes, or a group; \<^verbatim>\<open>check_if_main\<close> may also be handed something that is no
  HDF5 object at all. The file is the list of its objects under their paths.
\<close>

datatype h5_attr = Reference string | Text string | Number int

datatype h5_object =
    Dataset "nat list" "(string \<times> h5_attr) list"
  | Group "(string \<times> h5_attr) list"
  | Not_HDF5

type_synonym h5_file = "(string \<times> h5_object) list"

text \<open>\<^verbatim>\<open>h5_main.file[h5_main.attrs[name]]\<close>: a missing attribute (KeyError), a dangling
  reference (ValueError), an unknown path (KeyError) and a value that is neither
  (TypeError) all raise; the caller catches whatever is raised, so the model keeps only
  that something was.\<close>

definition resolve_link :: "h5_file \<Rightarrow> (string \<times> h5_attr) list \<Rightarrow> string \<Rightarrow> h5_object option" where
  "resolve_link file attrs name =
     (case map_of attrs name of
        None \<Rightarrow> None
      | Some (Reference path) \<Rightarrow> map_of file path
      | Some (Text path) \<Rightarrow> map_of file path
      | Some (Number _) \<Rightarrow> None)"

text \<open>\<^verbatim>\<open>obj.shape\<close>: a group has no such attribute. \<^verbatim>\<open>shape[k]\<close>: IndexError beyond the
  rank.\<close>

definition shape_of :: "h5_object \<Rightarrow> error + nat list" where
  "shape_of obj = (case obj of Dataset sh _ \<Rightarrow> Inr sh | _ \<Rightarrow> Inl AttributeError)"

definition extent :: "nat list \<Rightarrow> nat \<Rightarrow> error + nat" where
  "extent sh k = (if k < length sh then Inr (sh ! k) else Inl IndexError)"

definition is_dataset :: "h5_object \<Rightarrow> bool" where
  "is_dataset obj = (case obj of Dataset _ _ \<Rightarrow> True | _ \<Rightarrow> False)"

text \<open>The loop over the four link names: the first link that cannot be resolved ends the
  check with False; otherwise \<open>success\<close> records whether every linked object is a
  dataset.\<close>

fun check_links :: "h5_file \<Rightarrow> (string \<times> h5_attr) list \<Rightarrow> string list \<Rightarrow> bool \<Rightarrow> bool option" where
  "check_links file attrs [] success = Some success"
| "check_links file attrs (name # names) success =
     (case resolve_link file attrs name of
        None \<Rightarrow> None
      | Some h5_anc_dset \<Rightarrow> check_links file attrs names (success \<and> is_dataset h5_anc_dset))"

definition dset_names :: "string list" where
  "dset_names = [''Position_Indices'', ''Position_Values'',
                 ''Spectroscopic_Indices'', ''Spectroscopic_Values'']"

text \<open>The comparison of one pair of ancillaries with the main dataset along \<open>axis\<close>: the
  three tests are evaluated in the order of the source, each reading \<^verbatim>\<open>.shape\<close>.\<close>

definition anc_shape_match ::
  "nat list \<Rightarrow> nat \<Rightarrow> h5_object \<Rightarrow> h5_object \<Rightarrow> h5_object \<Rightarrow> h5_object \<Rightarrow> error + bool" where
  "anc_shape_match main_shape axis eq_left eq_right first second =
     bind (shape_of eq_left) (\<lambda>sl.
     bind (shape_of eq_right) (\<lambda>sr.
     bind (shape_of first) (\<lambda>s1.
     bind (extent s1 axis) (\<lambda>e1.
     bind (shape_of second) (\<lambda>s2.
     bind (extent s2 axis) (\<lambda>e2.
     Inr (sl = sr \<and> main_shape ! axis = e1 \<and> main_shape ! axis = e2)))))))"

text \<open>\<^verbatim>\<open>check_if_main(h5_main)\<close>. After the loop the links are resolved again without a
  guard: they are known to resolve, but not to be datasets.\<close>

definition check_if_main :: "h5_file \<Rightarrow> h5_object \<Rightarrow> error + bool" where
  "check_if_main file h5_main =
     (case h5_main of
        Dataset main_shape attrs \<Rightarrow>
          if length main_shape \<noteq> 2 then Inr False
          else
          (case check_links file attrs dset_names True of
             None \<Rightarrow> Inr False
           | Some success \<Rightarrow>
               if \<not> list_all (\<lambda>att. att \<in> set (map fst attrs)) [''quantity'', ''units'']
               then Inr False
               else
               (case (resolve_link file attrs ''Position_Indices'',
                      resolve_link file attrs ''Position_Values'',
                      resolve_link file attrs ''Spectroscopic_Indices'',
                      resolve_link file attrs ''Spectroscopic_Values'') of
                  (Some h5_pos_inds, Some h5_pos_vals, Some h5_spec_inds, Some h5_spec_vals) \<Rightarrow>
                    bind (anc_shape_match main_shape 0 h5_pos_vals h5_pos_inds
                            h5_pos_vals h5_pos_inds) (\<lambda>pos_ok.
                    if \<not> pos_ok then Inr False
                    else
                    bind (anc_shape_match main_shape 1 h5_spec_inds h5_spec_vals
                            h5_spec_inds h5_spec_vals) (\<lambda>spec_ok.
                    if \<not> spec_ok then Inr False
                    else Inr success))
                | _ \<Rightarrow> Inl KeyError))
      | _ \<Rightarrow> Inr False)"

text \<open>
  The specification's \<^verbatim>\<open>is_main\<close> (4.5): an array object, exactly 2-D, with four
  resolvable links each itself 2-D, with \<^verbatim>\<open>quantity\<close> and \<^verbatim>\<open>units\<close>, the Position pair of
  equal shape and of the main's row count, the Spectroscopic pair of equal shape and of
  the main's column count.
\<close>

definition linked_shape :: "h5_file \<Rightarrow> (string \<times> h5_attr) list \<Rightarrow> string \<Rightarrow> nat list option" where
  "linked_shape file attrs name =
     (case resolve_link file attrs name of
        Some (Dataset sh _) \<Rightarrow> Some sh
      | _ \<Rightarrow> None)"

definition spec_is_main :: "h5_file \<Rightarrow> h5_object \<Rightarrow> bool" where
  "spec_is_main file h5_main =
     (case h5_main of
        Dataset main_shape attrs \<Rightarrow>
          length main_shape = 2 \<and>
          (case (linked_shape file attrs ''Position_Indices'',
                 linked_shape file attrs ''Position_Values'',
                 linked_shape file attrs ''Spectroscopic_Indices'',
                 linked_shape file attrs ''Spectroscopic_Values'') of
             (Some pi, Some pv, Some si, Some sv) \<Rightarrow>
               length pi = 2 \<and> length pv = 2 \<and> length si = 2 \<and> length sv = 2 \<and>
               ''quantity'' \<in> set (map fst attrs) \<and> ''units'' \<in> set (map fst attrs) \<and>
               pi = pv \<and> pi ! 0 = main_shape ! 0 \<and>
               si = sv \<and> si ! 1 = main_shape ! 1
           | _ \<Rightarrow> False)
      | _ \<Rightarrow> False)"

section \<open>Reduction of ancillary datasets\<close>

text \<open>
  An ancillary HDF5 dataset as \<^verbatim>\<open>write_reduced_anc_dsets\<close> reads and writes it: the
  matrix, the \<^verbatim>\<open>labels\<close> and \<^verbatim>\<open>units\<close> attributes, and the region references, one
  pair of slices per name. The parent group is the list of the names it holds.
\<close>

datatype slice = Slice "nat option" "nat option"

record 'a anc_dataset =
  mat :: "'a matrix"
  labels :: "string list"
  units :: "string list"
  region_refs :: "(string \<times> slice \<times> slice) list"

text \<open>Indexing with a boolean mask: \<^verbatim>\<open>xs[mask]\<close>, IndexError when the lengths differ.\<close>

definition mask_select :: "'a list \<Rightarrow> bool list \<Rightarrow> error + 'a list" where
  "mask_select xs keep =
     (if length keep \<noteq> length xs then Inl IndexError
      else Inr (map fst (filter snd (zip xs keep))))"

text \<open>\<^verbatim>\<open>m[keep_dim, :][:, step_starts]\<close>.\<close>

definition select_rows_cols :: "'a matrix \<Rightarrow> bool list \<Rightarrow> bool list \<Rightarrow> error + 'a matrix" where
  "select_rows_cols m keep_dim step_starts =
     bind (mask_select (mrows m) keep_dim) (\<lambda>kept.
     if length step_starts \<noteq> ncols m then Inl IndexError
     else Inr (of_rows (length (filter id step_starts))
                 (map (\<lambda>r. map fst (filter snd (zip r step_starts))) kept)))"

text \<open>\<^verbatim>\<open>all_dim_names.index(cur_dim)\<close>, for a name known to occur.\<close>

definition list_index :: "'a list \<Rightarrow> 'a \<Rightarrow> nat" where
  "list_index xs x = length (takeWhile (\<lambda>y. y \<noteq> x) xs)"

text \<open>\<^verbatim>\<open>ind_mat[dim_ind] == np.min(ind_mat[dim_ind])\<close>: IndexError beyond the rows,
  ValueError for the minimum of an empty row.\<close>

definition first_index_mask :: "index matrix \<Rightarrow> nat \<Rightarrow> error + bool list" where
  "first_index_mask ind_mat dim_ind =
     (if dim_ind \<ge> nrows ind_mat then Inl IndexError
      else if mrow ind_mat dim_ind = [] then Inl ValueError
      else Inr (map (\<lambda>x. x = Min (set (mrow ind_mat dim_ind))) (mrow ind_mat dim_ind)))"

text \<open>The orientation is guessed from the shape when \<^verbatim>\<open>is_spec\<close> is not given; the base
  name loses one trailing underscore or defaults by the orientation.\<close>

definition guess_is_spec :: "'a matrix \<Rightarrow> bool option \<Rightarrow> error + bool" where
  "guess_is_spec ind_mat is_spec =
     (case is_spec of
        Some b \<Rightarrow> Inr b
      | None \<Rightarrow>
          if nrows ind_mat = ncols ind_mat then Inl ValueError
          else Inr (nrows ind_mat < ncols ind_mat))"

definition choose_basename :: "string option \<Rightarrow> bool \<Rightarrow> string" where
  "choose_basename basename is_spec =
     (case basename of
        Some b \<Rightarrow> if b \<noteq> [] \<and> last b = CHR ''_'' then butlast b else b
      | None \<Rightarrow> if is_spec then ''Spectroscopic'' else ''Position'')"

text \<open>The region references of the reduced datasets: one entry per remaining label, a
  later entry of the same name replacing an earlier one, as in a Python dict.\<close>

definition dict_update :: "'k \<Rightarrow> 'v \<Rightarrow> ('k \<times> 'v) list \<Rightarrow> ('k \<times> 'v) list" where
  "dict_update k v d =
     (if k \<in> set (map fst d) then map (\<lambda>(k', v'). if k' = k then (k', v) else (k', v')) d
      else d @ [(k, v)])"

definition reduced_region_refs :: "string list \<Rightarrow> bool \<Rightarrow> (string \<times> slice \<times> slice) list" where
  "reduced_region_refs labs is_spec =
     fold (\<lambda>(row_ind, row_name).
             dict_update row_name
               (if is_spec then (Slice (Some row_ind) (Some (row_ind + 1)), Slice None None)
                else (Slice None None, Slice (Some row_ind) (Some (row_ind + 1)))))
          (zip [0..<length labs] labs) []"

text \<open>The pair written when every dimension is dropped: \<^verbatim>\<open>np.array([[0]])\<close>, labelled
  \<^verbatim>\<open>Single_Step\<close>.\<close>

definition single_step :: "('a :: zero) anc_dataset" where
  "single_step =
     \<lparr>mat = \<lparr>nrows = 1, ncols = 1, elems = [0]\<rparr>,
      labels = [''Single_Step''], units = [''a. u.''],
      region_refs = [(''Single_Step'', Slice (Some 0) None, Slice None None)]\<rparr>"

text \<open>The branch of \<^verbatim>\<open>write_reduced_anc_dsets\<close> in which at least one dimension remains.\<close>

definition reduce_remaining ::
  "index anc_dataset \<Rightarrow> 'v anc_dataset \<Rightarrow> string list \<Rightarrow> bool \<Rightarrow>
     error + (index anc_dataset \<times> 'v anc_dataset)" where
  "reduce_remaining h5_inds h5_vals dim_name is_spec =
     (let all_dim_names = labels h5_inds;
          ind_mat = (if is_spec then mat h5_inds else mtranspose (mat h5_inds));
          val_mat = (if is_spec then mat h5_vals else mtranspose (mat h5_vals));
          dim_inds = map (list_index all_dim_names) dim_name;
          keep_dim = map (\<lambda>i. i \<notin> set dim_inds) [0..<length all_dim_names]
      in
      bind (collect (map (first_index_mask ind_mat) dim_inds)) (\<lambda>first_indices.
      if first_indices = [] then Inl ValueError
      else
      let step_starts = map (\<lambda>j. list_all (\<lambda>fi. fi ! j) first_indices) [0..<ncols ind_mat] in
      bind (select_rows_cols ind_mat keep_dim step_starts) (\<lambda>ind_new.
      bind (select_rows_cols val_mat keep_dim step_starts) (\<lambda>val_new.
      bind (mask_select (labels h5_inds) keep_dim) (\<lambda>labs.
      bind (mask_select (units h5_inds) keep_dim) (\<lambda>unts.
      let refs = reduced_region_refs labs is_spec in
      Inr (\<lparr>mat = (if is_spec then ind_new else mtranspose ind_new),
             labels = labs, units = unts, region_refs = refs\<rparr>,
           \<lparr>mat = (if is_spec then val_new else mtranspose val_new),
             labels = labs, units = unts, region_refs = refs\<rparr>)))))))"

text \<open>
  \<^verbatim>\<open>write_reduced_anc_dsets(h5_parent_group, h5_inds, h5_vals, dim_name, basename,
  is_spec)\<close>, with \<^verbatim>\<open>dim_name\<close> a list of names. The result is the parent group with the two
  new names, and the two new datasets.
\<close>

definition write_reduced_anc_dsets ::
  "string list \<Rightarrow> index anc_dataset \<Rightarrow> ('v :: zero) anc_dataset \<Rightarrow> string list \<Rightarrow>
     string option \<Rightarrow> bool option \<Rightarrow>
     error + (string list \<times> index anc_dataset \<times> 'v anc_dataset)" where
  "write_reduced_anc_dsets h5_parent_group h5_inds h5_vals dim_name basename is_spec =
     (let all_dim_names = labels h5_inds in
      if \<not> list_all (\<lambda>item. item \<in> set all_dim_names) dim_name then Inl KeyError
      else
      bind (guess_is_spec (mat h5_inds) is_spec) (\<lambda>is_spec.
      let basename = choose_basename basename is_spec in
      if basename @ ''_Indices'' \<in> set h5_parent_group
         \<or> basename @ ''_Values'' \<in> set h5_parent_group then Inl KeyError
      else
      bind (if set dim_name \<noteq> set all_dim_names
            then reduce_remaining h5_inds h5_vals dim_name is_spec
            else Inr (single_step, single_step)) (\<lambda>(h5_inds_new, h5_vals_new).
      Inr (h5_parent_group @ [basename @ ''_Indices'', basename @ ''_Values''],
           h5_inds_new, h5_vals_new))))"

section \<open>Extraction of unit values\<close>

text \<open>The numpy operations of \<^verbatim>\<open>get_unit_values\<close>: \<^verbatim>\<open>np.where(bs)[0]\<close>, the positions
  that hold; \<^verbatim>\<open>np.diff(xs)\<close>, each entry minus the one before it (wrapping for unsigned
  entries); \<^verbatim>\<open>np.unique(xs)\<close>, the distinct entries in ascending order; the slice
  \<^verbatim>\<open>xs[a:b]\<close>.\<close>

definition np_where :: "bool list \<Rightarrow> nat list" where
  "np_where bs = filter (\<lambda>i. bs ! i) [0..<length bs]"

fun np_diff :: "('a :: minus) list \<Rightarrow> 'a list" where
  "np_diff (x # y # xs) = (y - x) # np_diff (y # xs)"
| "np_diff _ = []"

definition np_unique :: "('a :: linorder) list \<Rightarrow> 'a list" where
  "np_unique xs = sort (remdups xs)"

definition py_slice :: "'a list \<Rightarrow> nat \<Rightarrow> nat \<Rightarrow> 'a list" where
  "py_slice xs a b = take (b - a) (drop a xs)"

text \<open>
  \<^verbatim>\<open>np.max(np.diff(subsections, axis=0)) != 0\<close>: the tiles are stacked into one array, which
  needs them to be of one length, and each tile is subtracted from the next; the
  maximum of no entries is a ValueError.
\<close>

definition tiles_differ :: "index list list \<Rightarrow> error + bool" where
  "tiles_differ subsections =
     (if \<not> list_all (\<lambda>t. length t = length (hd subsections)) subsections then Inl ValueError
      else
      let d = concat (map (\<lambda>k. map2 (\<lambda>b a. b - a) (subsections ! (k + 1)) (subsections ! k))
                        [0..<length subsections - 1])
      in if d = [] then Inl ValueError else Inr (Max (set d) \<noteq> 0))"

text \<open>
  The tile boundaries of one row of indices (\<^verbatim>\<open>tile_starts\<close> after the \<^verbatim>\<open>if\<close>):
  the positions of the row minimum, the gaps between them, the test that at most one
  gap size other than 1 occurs, and the test that all tiles are alike.
\<close>

definition tile_bounds :: "index list \<Rightarrow> error + nat list" where
  "tile_bounds inds_for_dim =
     (if inds_for_dim = [] then Inl ValueError
      else
      let starts = np_where (map (\<lambda>x. x = Min (set inds_for_dim)) inds_for_dim);
          step_sizes = 1 # np_diff (map int starts)
      in
      if length (np_where (map (\<lambda>u. u - 1 \<noteq> 0) (np_unique step_sizes))) > 1
      then Inl ValueError
      else
      let tile_starts = np_where (map (\<lambda>s. s > 1) step_sizes) in
      if length tile_starts < 1 then Inr [0, length inds_for_dim]
      else
      let tile_starts = (0 # map (\<lambda>i. starts ! i) tile_starts) @ [length inds_for_dim];
          subsections = map (\<lambda>k. py_slice inds_for_dim (tile_starts ! k) (tile_starts ! (k + 1)))
                          [0..<length tile_starts - 1]
      in bind (tiles_differ subsections) (\<lambda>differ.
         if differ then Inl ValueError else Inr tile_starts))"

text \<open>The positions, within the first tile, at which the index changes
  (\<^verbatim>\<open>step_inds\<close>).\<close>

definition unit_step_inds :: "index list \<Rightarrow> error + nat list" where
  "unit_step_inds inds_for_dim =
     bind (tile_bounds inds_for_dim) (\<lambda>tile_starts.
     let subsection = py_slice inds_for_dim (tile_starts ! 0) (tile_starts ! 1) in
     Inr (0 # np_where (map (\<lambda>d. d \<noteq> 0) (0 # np_diff subsection))))"

text \<open>The loop over \<^verbatim>\<open>all_dim_names\<close>: every dimension is analysed, those asked for are
  entered into the dictionary. The row of a name is the first row of that name.\<close>

fun unit_values_loop ::
  "index matrix \<Rightarrow> 'v matrix \<Rightarrow> string list \<Rightarrow> string list \<Rightarrow> string list \<Rightarrow>
     (string \<rightharpoonup> 'v list) \<Rightarrow> error + (string \<rightharpoonup> 'v list)" where
  "unit_values_loop inds_mat vals_mat all_dim_names dim_names [] unit_values = Inr unit_values"
| "unit_values_loop inds_mat vals_mat all_dim_names dim_names (dim_name # rest) unit_values =
     (let desired_row_ind = list_index all_dim_names dim_name in
      bind (unit_step_inds (mrow inds_mat desired_row_ind)) (\<lambda>step_inds.
      unit_values_loop inds_mat vals_mat all_dim_names dim_names rest
        (if dim_name \<in> set dim_names
         then unit_values(dim_name \<mapsto> map (\<lambda>j. mrow vals_mat desired_row_ind ! j) step_inds)
         else unit_values)))"

text \<open>The orientation in which the rows are the dimensions: guessed from the shape when
  \<^verbatim>\<open>is_spec\<close> is not given.\<close>

definition spec_oriented :: "'a matrix \<Rightarrow> 'b matrix \<Rightarrow> bool option \<Rightarrow> 'b matrix" where
  "spec_oriented inds_mat m is_spec =
     (if (case is_spec of None \<Rightarrow> nrows inds_mat < ncols inds_mat | Some b \<Rightarrow> b) then m
      else mtranspose m)"

text \<open>
  \<^verbatim>\<open>get_unit_values(ds_inds, ds_vals, dim_names, all_dim_names, is_spec)\<close> for numpy
  arrays with the names of all dimensions given. (For HDF5 datasets the names are read
  from the \<^verbatim>\<open>labels\<close> attribute, and a dataset marked with \<^verbatim>\<open>incomplete_dimensions\<close> is
  refused.)
\<close>

definition get_unit_values ::
  "index matrix \<Rightarrow> 'v matrix \<Rightarrow> string list option \<Rightarrow> string list \<Rightarrow> bool option \<Rightarrow>
     error + (string \<rightharpoonup> 'v list)" where
  "get_unit_values ds_inds ds_vals dim_names all_dim_names is_spec =
     (if (nrows ds_inds, ncols ds_inds) \<noteq> (nrows ds_vals, ncols ds_vals) then Inl ValueError
      else
      let inds_mat = spec_oriented ds_inds ds_inds is_spec;
          vals_mat = spec_oriented ds_inds ds_vals is_spec
      in
      if length all_dim_names \<noteq> nrows inds_mat then Inl ValueError
      else
      bind (case dim_names of
              None \<Rightarrow> Inr all_dim_names
            | Some names \<Rightarrow>
                if list_all (\<lambda>n. n \<in> set all_dim_names) names then Inr names
                else Inl KeyError) (\<lambda>dim_names.
      unit_values_loop inds_mat vals_mat all_dim_names dim_names all_dim_names Map.empty))"

text \<open>
  Modelled from the spec: \<^verbatim>\<open>build_ind_val_matrices\<close> of \<^verbatim>\<open>write_utils\<close> is not among the
  sources. By 4.1 it builds, from value sequences of lengths \<open>L\<^sub>0 \<dots> L\<^sub>k\<close>, index and value
  matrices of shape \<open>[k + 1, \<Prod> L\<^sub>i]\<close> by Cartesian tiling, dimension \<open>i\<close> cycling every
  \<open>\<Prod> (L\<^sub>0 \<dots> L\<^sub>i\<^sub>-\<^sub>1)\<close> steps; it rejects an empty list of dimensions, and the Position
  orientation transposes the result. The test \<^verbatim>\<open>test_3D\<close> writes the rows as
  \<^verbatim>\<open>np.tile(np.repeat(values, repeats), tiles)\<close>.
\<close>

definition np_repeat :: "'a list \<Rightarrow> nat \<Rightarrow> 'a list" where
  "np_repeat xs p = concat (map (replicate p) xs)"

definition np_tile :: "'a list \<Rightarrow> nat \<Rightarrow> 'a list" where
  "np_tile xs t = concat (replicate t xs)"

definition tiled_row :: "nat list \<Rightarrow> nat \<Rightarrow> 'a list \<Rightarrow> 'a list" where
  "tiled_row lens i xs =
     np_tile (np_repeat xs (prod_list (take i lens)))
       (prod_list lens div prod_list (take (i + 1) lens))"

definition build_ind_val_matrices :: "'v list list \<Rightarrow> bool \<Rightarrow> error + (index matrix \<times> 'v matrix)" where
  "build_ind_val_matrices unit_values is_spectral =
     (if unit_values = [] then Inl ValueError
      else
      let lens = map length unit_values;
          ind_mat = of_rows (prod_list lens)
                      (map (\<lambda>i. tiled_row lens i (map of_nat [0..<lens ! i])) [0..<length lens]);
          val_mat = of_rows (prod_list lens)
                      (map (\<lambda>i. tiled_row lens i (unit_values ! i)) [0..<length lens])
      in Inr (if is_spectral then (ind_mat, val_mat)
              else (mtranspose ind_mat, mtranspose val_mat)))"

section \<open>The specification's reading of the order analysis\<close>

text \<open>
  The specification words \<^verbatim>\<open>sort_order\<close> as: count the value transitions between adjacent
  steps of each row, sort the rows descending by that count, keep rows of equal count
  in their original order. These two definitions follow those words, for comparison
  with \<^const>\<open>get_sort_order\<close>.
\<close>

definition transitions :: "'a list \<Rightarrow> nat" where
  "transitions row = length (filter (\<lambda>i. row ! i \<noteq> row ! (i - 1)) [1..<length row])"

definition spec_sort_order :: "'a matrix \<Rightarrow> nat list" where
  "spec_sort_order m = sort_key (\<lambda>i. - int (transitions (mrow m i))) [0..<nrows m]"

text \<open>The specification's \<^verbatim>\<open>true permutation of row indices\<close>: every row index exactly
  once.\<close>

definition true_permutation :: "int list \<Rightarrow> nat \<Rightarrow> bool" where
  "true_permutation srt n = (sort srt = map int [0..<n])"

text \<open>The extents that the reshape functions compute for one group of dimensions: the
  distinct-value count of every row, in the order fastest to slowest.\<close>

definition sorted_dims :: "(nat list \<Rightarrow> nat list) \<Rightarrow> 'a matrix \<Rightarrow> nat list" where
  "sorted_dims argsort m =
     map (\<lambda>i. n_unique (mrow (spec_like m) i)) (get_sort_order argsort m)"

text \<open>The gaps between consecutive positions of the row minimum, as C6 speaks of them.\<close>

definition gaps :: "index list \<Rightarrow> int list" where
  "gaps row = np_diff (map int (np_where (map (\<lambda>x. x = Min (set row)) row)))"

text \<open>The positions at which the tiles of a tiled row begin: the first \<open>P\<close> positions of
  each of \<open>T\<close> tiles of length \<open>M\<close>.\<close>

definition tile_starts_of :: "nat \<Rightarrow> nat \<Rightarrow> nat \<Rightarrow> nat list" where
  "tile_starts_of P M T = concat (map (\<lambda>t. [t * M..<t * M + P]) [0..<T])"

text \<open>
  The axes of the two transpositions. \<^verbatim>\<open>reshape_from_n_dims\<close> transposes by the sort
  orders, reversed, the spectroscopic ones shifted past the position ones;
  \<^verbatim>\<open>reshape_to_n_dims\<close> looks every generated label up among the labels in that order.
  Axis \<open>i\<close> of the N-dimensional form carries the label \<open>axis_label P i\<close> when there are
  \<open>P\<close> position dimensions.
\<close>

definition from_nd_axes :: "nat list \<Rightarrow> nat list \<Rightarrow> nat list" where
  "from_nd_axes pos_sort spec_sort =
     rev pos_sort @ map (\<lambda>x. x + length pos_sort) (rev spec_sort)"

definition axis_label :: "nat \<Rightarrow> nat \<Rightarrow> label" where
  "axis_label P i = (if i < P then Position_Dimension i else Spectral_Dimension (i - P))"


section \<open>Properties of the dimension order analysis\<close>

lemma perm_upt_facts:
  assumes "mset s = mset [0..<n]"
  shows "length s = n" and "set s = {0..<n}" and "distinct s" and "sort s = [0..<n]"
proof -
  show "length s = n" using assms by (metis length_upt mset_eq_length minus_nat.diff_0)
  show "set s = {0..<n}" using assms by (metis set_mset_mset set_upt)
  show "distinct s" using assms by (metis distinct_upt mset_eq_imp_distinct_iff)
  show "sort s = [0..<n]" using assms by (metis properties_for_sort sorted_upt)
qed

lemma is_argsort_stable: "is_argsort stable_argsort"
  by (simp add: is_argsort_def stable_argsort_def sorted_sort_key)

lemma get_sort_order_eq:
  "get_sort_order argsort m = rev (argsort (map change_count (mrows (spec_like m))))"
  by (simp add: get_sort_order_def Let_def)

lemma mset_get_sort_order:
  "is_argsort argsort \<Longrightarrow> mset (get_sort_order argsort m) = mset [0..<nrows (spec_like m)]"
  by (simp add: get_sort_order_eq is_argsort_def mrows_def)

lemma length_get_sort_order:
  "is_argsort argsort \<Longrightarrow> length (get_sort_order argsort m) = nrows (spec_like m)"
  by (rule perm_upt_facts(1)[OF mset_get_sort_order])

lemma set_get_sort_order:
  "is_argsort argsort \<Longrightarrow> set (get_sort_order argsort m) = {0..<nrows (spec_like m)}"
  by (rule perm_upt_facts(2)[OF mset_get_sort_order])

lemma get_sort_order_mono:
  assumes a: "is_argsort argsort" and ij: "i < j" "j < nrows (spec_like m)"
  shows "change_count (mrow (spec_like m) (get_sort_order argsort m ! j))
           \<le> change_count (mrow (spec_like m) (get_sort_order argsort m ! i))"
proof -
  define cs where "cs = map change_count (mrows (spec_like m))"
  define n where "n = nrows (spec_like m)"
  define p where "p = argsort cs"
  have lcs: "length cs = n" by (simp add: cs_def n_def mrows_def)
  have mp: "mset p = mset [0..<n]" using a by (simp add: is_argsort_def p_def lcs)
  note pf = perm_upt_facts[OF mp]
  have srt: "sorted (map (\<lambda>i. cs ! i) p)" using a by (simp add: is_argsort_def p_def)
  have order: "get_sort_order argsort m = rev p"
    by (simp add: get_sort_order_eq cs_def p_def)
  have at: "rev p ! k = p ! (n - Suc k)" if "k < n" for k
    using that pf(1) by (simp add: rev_nth)
  have mem: "p ! k < n" if "k < n" for k
    using that pf(1,2) by (metis atLeastLessThan_iff nth_mem)
  have csn: "cs ! r = change_count (mrow (spec_like m) r)" if "r < n" for r
    using that by (simp add: cs_def n_def mrows_def)
  have i: "i < n" and j: "j < n" using ij by (simp_all add: n_def)
  have "map (\<lambda>i. cs ! i) p ! (n - Suc j) \<le> map (\<lambda>i. cs ! i) p ! (n - Suc i)"
    using srt ij(1) i pf(1) by (intro sorted_nth_mono) simp_all
  then have "cs ! (p ! (n - Suc j)) \<le> cs ! (p ! (n - Suc i))"
    using i j pf(1) by simp
  then have "cs ! (rev p ! j) \<le> cs ! (rev p ! i)" by (simp add: at i j)
  moreover have "rev p ! i < n" "rev p ! j < n" using mem i j by (simp_all add: at)
  ultimately show ?thesis by (simp add: order csn)
qed

text \<open>
  C2, as the specification states it, fails: the rows \<open>[0, 1, 0]\<close> and \<open>[0, 1, 2]\<close> both have
  two transitions between adjacent steps, so the stable descending order of the
  specification is \<open>[0, 1]\<close>; the code also compares the first entry with the last, counts
  2 and 3 changes, and puts row 1 first. The two counts differ, so the result does not
  depend on how the argsort treats equal entries
  (\<open>get_sort_order_differs_for_every_argsort\<close>).
\<close>

theorem get_sort_order_differs_from_spec:
  "get_sort_order stable_argsort (of_rows 3 [[0, 1, 0], [0, 1, 2 :: index]]) = [1, 0]
   \<and> spec_sort_order (of_rows 3 [[0, 1, 0], [0, 1, 2 :: index]]) = [0, 1]"
  by (simp add: get_sort_order_def spec_sort_order_def spec_like_def of_rows_def mrows_def
      mrow_def stable_argsort_def change_count_def transitions_def upt_rec)

lemma get_sort_order_differs_for_every_argsort:
  assumes a: "is_argsort argsort"
  shows "get_sort_order argsort (of_rows 3 [[0, 1, 0], [0, 1, 2 :: index]]) = [1, 0]"
proof -
  let ?m = "of_rows 3 [[0, 1, 0], [0, 1, 2 :: index]]"
  define p where "p = get_sort_order argsort ?m"
  have sl: "spec_like ?m = ?m" by (simp add: spec_like_def of_rows_def)
  have n: "nrows ?m = 2" by (simp add: of_rows_def)
  have c0: "change_count (mrow ?m 0) = 2"
    by (simp add: of_rows_def mrow_def change_count_def upt_rec)
  have c1: "change_count (mrow ?m 1) = 3"
    by (simp add: of_rows_def mrow_def change_count_def upt_rec)
  have mp: "mset p = mset [0..<2]"
    using mset_get_sort_order[OF a, of ?m] by (simp only: sl n p_def)
  note pf = perm_upt_facts[OF mp]
  have mono: "change_count (mrow ?m (p ! 1)) \<le> change_count (mrow ?m (p ! 0))"
    using get_sort_order_mono[OF a, of 0 1 ?m] by (simp only: sl n p_def)
  have in0: "p ! 0 \<in> {0..<2}" and in1: "p ! 1 \<in> {0..<2}"
    using pf(1,2) nth_mem[of 0 p] nth_mem[of 1 p] by auto
  have ne: "p ! 0 \<noteq> p ! 1" using pf(1,3) by (simp add: nth_eq_iff_index_eq)
  have p0: "p ! 0 = 1"
  proof (rule ccontr)
    assume "p ! 0 \<noteq> 1"
    then have z: "p ! 0 = 0" using in0 by auto
    then have "p ! 1 = 1" using ne in1 by auto
    then show False using mono z c0 c1 by simp
  qed
  then have p1: "p ! 1 = 0" using ne in1 by auto
  have "p = [p ! 0, p ! 1]"
  proof (rule nth_equalityI)
    show "length p = length [p ! 0, p ! 1]" using pf(1) by simp
  next
    fix i assume "i < length p"
    then have "i = 0 \<or> i = 1" using pf(1) by auto
    then show "p ! i = [p ! 0, p ! 1] ! i" by auto
  qed
  then show ?thesis using p0 p1 by (simp add: p_def)
qed

text \<open>
  C2 (amended): for every index matrix, taken transposed when it has more rows than
  columns, \<^const>\<open>get_sort_order\<close> returns a permutation of the row indices in descending
  order of the number of positions whose entry differs from the entry before it, the
  first entry being compared with the last. The order among rows of equal count is
  whatever the argsort leaves, and is not determined.
\<close>

theorem get_sort_order_descending:
  assumes "is_argsort argsort"
  shows "mset (get_sort_order argsort m) = mset [0..<nrows (spec_like m)] \<and>
   (\<forall>i j. i < j \<and> j < nrows (spec_like m) \<longrightarrow>
      change_count (mrow (spec_like m) (get_sort_order argsort m ! j))
        \<le> change_count (mrow (spec_like m) (get_sort_order argsort m ! i)))"
proof (intro conjI allI impI)
  show "mset (get_sort_order argsort m) = mset [0..<nrows (spec_like m)]"
    using assms by (rule mset_get_sort_order)
next
  fix i j
  assume "i < j \<and> j < nrows (spec_like m)"
  then show "change_count (mrow (spec_like m) (get_sort_order argsort m ! j))
        \<le> change_count (mrow (spec_like m) (get_sort_order argsort m ! i))"
    using get_sort_order_mono[OF assms, of i j m] by simp
qed

theorem get_sort_order_descending_witness:
  "is_argsort stable_argsort
   \<and> mset (get_sort_order stable_argsort (of_rows 4 [[0, 0, 1, 1], [0, 1, 0, 1 :: index]]))
       = mset [0..<2]
   \<and> change_count (mrow (of_rows 4 [[0, 0, 1, 1], [0, 1, 0, 1 :: index]])
        (get_sort_order stable_argsort (of_rows 4 [[0, 0, 1, 1], [0, 1, 0, 1 :: index]]) ! 1))
     \<le> change_count (mrow (of_rows 4 [[0, 0, 1, 1], [0, 1, 0, 1 :: index]])
        (get_sort_order stable_argsort (of_rows 4 [[0, 0, 1, 1], [0, 1, 0, 1 :: index]]) ! 0))
   \<and> get_sort_order stable_argsort (of_rows 4 [[0, 0, 1, 1], [0, 1, 0, 1 :: index]]) = [1, 0]"
proof -
  let ?m = "of_rows 4 [[0, 0, 1, 1], [0, 1, 0, 1 :: index]]"
  have sl: "spec_like ?m = ?m" by (simp add: spec_like_def of_rows_def)
  have n: "nrows ?m = 2" by (simp add: of_rows_def)
  have v: "get_sort_order stable_argsort ?m = [1, 0]"
    by (simp add: get_sort_order_def spec_like_def of_rows_def mrows_def
      mrow_def stable_argsort_def change_count_def upt_rec)
  have d: "mset (get_sort_order stable_argsort ?m) = mset [0..<2] \<and>
     (\<forall>i j. i < j \<and> j < 2 \<longrightarrow>
        change_count (mrow ?m (get_sort_order stable_argsort ?m ! j))
          \<le> change_count (mrow ?m (get_sort_order stable_argsort ?m ! i)))"
    by (rule get_sort_order_descending[OF is_argsort_stable, of ?m, unfolded sl n])
  then have "change_count (mrow ?m (get_sort_order stable_argsort ?m ! 1))
          \<le> change_count (mrow ?m (get_sort_order stable_argsort ?m ! 0))"
    by simp
  then show ?thesis using d v is_argsort_stable by blast
qed

lemma get_dimensionality_Some:
  "get_dimensionality m (Some srt) =
     (if srt \<noteq> [] \<and> (\<forall>x\<in>set srt. 0 \<le> x) \<and> set srt = int ` {0..<nrows (spec_like m)}
      then Inr (map (\<lambda>i. n_unique (mrow (spec_like m) (nat i))) srt)
      else Inl ValueError)"
proof -
  have "\<not> length (remdups srt) > nrows (spec_like m)"
    if a: "set srt = int ` {0..<nrows (spec_like m)}"
  proof -
    have "length (remdups srt) = card (set srt)" by (simp add: length_remdups_card_conv)
    also have "\<dots> = nrows (spec_like m)" using a by (simp add: card_image)
    finally show ?thesis by simp
  qed
  then show ?thesis
    by (auto simp: get_dimensionality_def Let_def bind_def contains_integers_def list_all_iff
        comp_def)
qed

text \<open>
  C4, as the specification states it, fails: \<open>[0, 1, 1]\<close> is not a permutation of the two row
  indices, yet no error is raised; the second row is counted twice.
\<close>

theorem get_dimensionality_accepts_duplicates:
  "\<not> true_permutation [0, 1, 1] (nrows (of_rows 2 [[0, 1], [0, 0 :: index]]))
   \<and> get_dimensionality (of_rows 2 [[0, 1], [0, 0 :: index]]) (Some [0, 1, 1]) = Inr [2, 1, 1]"
  by (simp add: true_permutation_def get_dimensionality_def Let_def bind_def
      contains_integers_def spec_like_def of_rows_def mrow_def n_unique_def upt_rec)

text \<open>
  C4 (amended): for every index matrix, taken transposed when it has more rows than
  columns, and every supplied order, \<^const>\<open>get_dimensionality\<close> raises ValueError whenever
  the order is empty, has a negative entry, or the set of its entries is not the set of
  row indices, and otherwise returns the distinct-value count of the row named by each
  entry of the order, repeated entries included.
\<close>

theorem get_dimensionality_checks_set:
  "get_dimensionality m (Some srt) =
     (if srt \<noteq> [] \<and> (\<forall>x\<in>set srt. 0 \<le> x) \<and> set srt = int ` {0..<nrows (spec_like m)}
      then Inr (map (\<lambda>i. n_unique (mrow (spec_like m) (nat i))) srt)
      else Inl ValueError)"
  by (rule get_dimensionality_Some)

theorem get_dimensionality_checks_set_witness:
  "get_dimensionality (of_rows 2 [[0, 1], [0, 0 :: index]]) (Some [1, 0]) = Inr [1, 2]
   \<and> get_dimensionality (of_rows 2 [[0, 1], [0, 0 :: index]]) (Some [1, 2]) = Inl ValueError
   \<and> get_dimensionality (of_rows 2 [[0, 1], [0, 0 :: index]]) (Some []) = Inl ValueError"
proof -
  let ?m = "of_rows 2 [[0, 1], [0, 0 :: index]]"
  have sl: "spec_like ?m = ?m" by (simp add: spec_like_def of_rows_def)
  have n: "nrows ?m = 2" by (simp add: of_rows_def)
  have two: "int ` {0..<2} = {0, 1}" by auto
  have good: "[1, 0 :: int] \<noteq> [] \<and> (\<forall>x\<in>set [1, 0 :: int]. 0 \<le> x)
                \<and> set [1, 0 :: int] = int ` {0..<nrows (spec_like ?m)}"
    unfolding sl n two by auto
  have bad: "set [1, 2 :: int] \<noteq> int ` {0..<nrows (spec_like ?m)}"
  proof
    assume e: "set [1, 2 :: int] = int ` {0..<nrows (spec_like ?m)}"
    have "(2 :: int) \<in> set [1, 2]" by simp
    then have "(2 :: int) \<in> {0, 1}" unfolding e sl n two .
    then show False by simp
  qed
  have "get_dimensionality ?m (Some [1, 0])
      = Inr (map (\<lambda>i. n_unique (mrow (spec_like ?m) (nat i))) [1, 0])"
    by (subst get_dimensionality_checks_set) (rule if_P[OF good])
  moreover have "get_dimensionality ?m (Some [1, 2]) = Inl ValueError"
    by (subst get_dimensionality_checks_set) (rule if_not_P, use bad in blast)
  moreover have "get_dimensionality ?m (Some []) = Inl ValueError"
    by (subst get_dimensionality_checks_set) (rule if_not_P, blast)
  ultimately show ?thesis
    by (simp add: sl) (simp add: of_rows_def mrow_def n_unique_def)
qed

section \<open>Properties of the reshape engine\<close>

lemma nrows_spec_like_pos: "0 < msize m \<Longrightarrow> 0 < nrows (spec_like m)"
  by (auto simp: spec_like_def msize_def mtranspose_def)

lemma msize_mtranspose: "msize (mtranspose m) = msize m"
  by (simp add: msize_def mtranspose_def mult.commute)

lemma get_dimensionality_sorted:
  assumes "is_argsort argsort" "0 < msize m"
  shows "get_dimensionality m (Some (map int (get_sort_order argsort m)))
           = Inr (sorted_dims argsort m)"
proof -
  have "set (map int (get_sort_order argsort m)) = int ` {0..<nrows (spec_like m)}"
    by (simp add: set_get_sort_order[OF assms(1)])
  moreover have "length (get_sort_order argsort m) \<noteq> 0"
    using nrows_spec_like_pos[OF assms(2)] by (simp add: length_get_sort_order[OF assms(1)])
  then have "map int (get_sort_order argsort m) \<noteq> []" by simp
  ultimately show ?thesis
    by (simp add: get_dimensionality_Some sorted_dims_def comp_def)
qed

lemma to_nd_ancillaries_both:
  assumes "shape h5_main = [nrows p, ncols s]"
  shows "to_nd_ancillaries h5_main (Some p) (Some s) =
      Inr (p, map Position_Dimension [0..<ncols p], s, map Spectral_Dimension [0..<nrows s])"
  using assms by (simp add: to_nd_ancillaries_def bind_def ndim_def)

lemma reshape_to_n_dims_both:
  assumes "shape h5_main = [nrows p, ncols s]"
    and "is_argsort argsort" "0 < msize p" "0 < msize s"
  shows "reshape_to_n_dims argsort h5_main (Some p) (Some s) get_labels sort_dims =
     (case np_reshape h5_main
             (rev (sorted_dims argsort (mtranspose p)) @ rev (sorted_dims argsort s)) of
       Inl _ \<Rightarrow>
         (case np_reshape_infer h5_main (rev (sorted_dims argsort (mtranspose p))) of
            Inl _ \<Rightarrow>
              Inr (h5_main, Success_False,
                   if get_labels then Some [Literal ''Position'', Literal ''Spectral Step'']
                   else None)
          | Inr ds_Nd \<Rightarrow>
              if get_labels then Inl TypeError
              else Inr (ds_Nd, Success_Positions, None))
     | Inr ds_Nd \<Rightarrow>
         (let pos_labs = map Position_Dimension [0..<ncols p];
              spec_labs = map Spectral_Dimension [0..<nrows s];
              sorted_pos = map (\<lambda>i. pos_labs ! i) (get_sort_order argsort (mtranspose p));
              sorted_spec = map (\<lambda>i. spec_labs ! i) (get_sort_order argsort s);
              all_labels = rev sorted_pos @ rev sorted_spec
          in
          bind (collect (map (find_axis all_labels)
                  (if sort_dims then sorted_pos @ sorted_spec else pos_labs @ spec_labs)))
            (\<lambda>swap_axes.
          bind (np_transpose ds_Nd swap_axes) (\<lambda>ds_Nd2.
          Inr (ds_Nd2, Success_True,
               if get_labels then Some (map (\<lambda>j. all_labels ! j) swap_axes) else None)))))"
proof -
  have mp: "0 < msize (mtranspose p)" using assms(3) by (simp add: msize_mtranspose)
  show ?thesis
    unfolding reshape_to_n_dims_def to_nd_ancillaries_both[OF assms(1)]
    by (simp add: bind_def get_dimensionality_sorted[OF assms(2) mp]
        get_dimensionality_sorted[OF assms(2,4)] Let_def split: sum.splits)
qed

lemma reshape_to_n_dims_degraded:
  assumes "shape h5_main = [nrows p, ncols s]"
    and "is_argsort argsort" "0 < msize p" "0 < msize s"
    and "prod_list (sorted_dims argsort (mtranspose p)) * prod_list (sorted_dims argsort s)
           \<noteq> nrows p * ncols s"
  shows "reshape_to_n_dims argsort h5_main (Some p) (Some s) False sort_dims =
     (if prod_list (sorted_dims argsort (mtranspose p)) = 0
         \<or> (nrows p * ncols s) mod prod_list (sorted_dims argsort (mtranspose p)) \<noteq> 0
      then Inr (h5_main, Success_False, None)
      else Inr (h5_main\<lparr>shape := rev (sorted_dims argsort (mtranspose p))
                   @ [(nrows p * ncols s) div prod_list (sorted_dims argsort (mtranspose p))]\<rparr>,
                Success_Positions, None))"
  unfolding reshape_to_n_dims_both[OF assms(1-4)]
  using assms(1,5) by (simp add: np_reshape_def np_reshape_infer_def np_size_def)

text \<open>Where neither index matrix has more than one dimension there is nothing to order,
  and both functions return the same for every argsort.\<close>

lemma perm_upt_le1: "mset xs = mset [0..<n] \<Longrightarrow> n \<le> 1 \<Longrightarrow> xs = [0..<n]"
proof -
  assume a: "mset xs = mset [0..<n]" and n: "n \<le> 1"
  have l: "length xs \<le> 1" using perm_upt_facts(1)[OF a] n by simp
  have "sort xs = xs"
  proof (cases xs)
    case Nil
    then show ?thesis by simp
  next
    case (Cons x ys)
    then have "ys = []" using l by simp
    then show ?thesis using Cons by simp
  qed
  then show ?thesis using perm_upt_facts(4)[OF a] by simp
qed

lemma nrows_spec_like_le: "nrows (spec_like m) \<le> nrows m"
  by (simp add: spec_like_def mtranspose_def)

lemma get_sort_order_single_dimension:
  assumes "is_argsort f" "is_argsort g" "nrows m \<le> 1"
  shows "get_sort_order f m = get_sort_order g m"
proof -
  have n: "nrows (spec_like m) \<le> 1" using nrows_spec_like_le[of m] assms(3) by simp
  have "get_sort_order f m = [0..<nrows (spec_like m)]"
    using mset_get_sort_order[OF assms(1)] n by (rule perm_upt_le1)
  moreover have "get_sort_order g m = [0..<nrows (spec_like m)]"
    using mset_get_sort_order[OF assms(2)] n by (rule perm_upt_le1)
  ultimately show ?thesis by simp
qed

lemma reshape_to_n_dims_single_dimension:
  assumes "is_argsort f" "is_argsort g"
    and "shape h5_main = [nrows p, ncols s]" "ncols p \<le> 1" "nrows s \<le> 1"
  shows "reshape_to_n_dims f h5_main (Some p) (Some s) get_labels sort_dims
       = reshape_to_n_dims g h5_main (Some p) (Some s) get_labels sort_dims"
proof -
  have p: "nrows (mtranspose p) \<le> 1" using assms(4) by (simp add: mtranspose_def)
  show ?thesis
    unfolding reshape_to_n_dims_def to_nd_ancillaries_both[OF assms(3)]
    by (simp add: bind_def get_sort_order_single_dimension[OF assms(1,2) p]
        get_sort_order_single_dimension[OF assms(1,2,5)])
qed

lemma reshape_from_n_dims_single_dimension:
  assumes "is_argsort f" "is_argsort g" "ncols p \<le> 1" "nrows s \<le> 1"
  shows "reshape_from_n_dims f mk d (Some p) (Some s)
       = reshape_from_n_dims g mk d (Some p) (Some s)"
proof -
  have p: "nrows (mtranspose p) \<le> 1" using assms(3) by (simp add: mtranspose_def)
  show ?thesis
    unfolding reshape_from_n_dims_def from_nd_ancillaries_def
    by (simp add: bind_def get_sort_order_single_dimension[OF assms(1,2) p]
        get_sort_order_single_dimension[OF assms(1,2,4)])
qed

text \<open>
  C3: with index matrices that are not empty and fit neither the full shape nor the
  position-only shape,
  \<^const>\<open>reshape_to_n_dims\<close> returns the original array with status False, and with inputs
  that fit only the position-only shape it returns status \<^verbatim>\<open>'Positions'\<close>
  (\<open>reshape_to_n_dims_degraded\<close>, for \<^verbatim>\<open>get_labels=False\<close>). The claim that neither
  degraded case raises fails on the code: on a 2 by 3 array with two positions and a
  constant spectroscopic row the position-only reshape succeeds, and asking for the
  labels then raises TypeError while building \<^verbatim>\<open>['Position'] + spec_labs\<close>. Each index
  matrix has a single dimension, so every argsort gives this result
  (\<open>reshape_to_n_dims_single_dimension\<close>).
\<close>

theorem reshape_to_n_dims_positions_labels_raise:
  "reshape_to_n_dims stable_argsort \<lparr>shape = [2, 3], flat = [0, 1, 2, 3, 4, 5 :: int]\<rparr>
     (Some (of_rows 1 [[0], [1]])) (Some (of_rows 3 [[0, 0, 0]])) False False
   = Inr (\<lparr>shape = [2, 3], flat = [0, 1, 2, 3, 4, 5]\<rparr>, Success_Positions, None)
   \<and> reshape_to_n_dims stable_argsort \<lparr>shape = [2, 3], flat = [0, 1, 2, 3, 4, 5 :: int]\<rparr>
     (Some (of_rows 1 [[0], [1]])) (Some (of_rows 3 [[0, 0, 0]])) True False
   = Inl TypeError"
  by code_simp

text \<open>
  C10: for every array of rank below 2, given at least one ancillary,
  \<^const>\<open>reshape_from_n_dims\<close> returns that array unchanged with status True; none of the
  ancillary shape, element-count or axis-count checks is reached.
\<close>

theorem reshape_from_n_dims_low_rank:
  "ndim d < 2 \<Longrightarrow> h5_pos \<noteq> None \<or> h5_spec \<noteq> None \<Longrightarrow>
     reshape_from_n_dims argsort mk d h5_pos h5_spec = Inr (d, True)"
  by (auto simp: reshape_from_n_dims_def)

theorem reshape_from_n_dims_low_rank_witness:
  "ndim \<lparr>shape = [3], flat = [1, 2, 3 :: int]\<rparr> < 2
   \<and> reshape_from_n_dims stable_argsort (\<lambda>_ _. Inl ValueError)
        \<lparr>shape = [3], flat = [1, 2, 3 :: int]\<rparr> (Some (of_rows 1 [[0], [1]])) None
      = Inr (\<lparr>shape = [3], flat = [1, 2, 3]\<rparr>, True)"
  using reshape_from_n_dims_low_rank[where d = "\<lparr>shape = [3], flat = [1, 2, 3 :: int]\<rparr>"
          and h5_pos = "Some (of_rows 1 [[0], [1]])" and h5_spec = None
          and mk = "\<lambda>_ _. Inl ValueError" and argsort = stable_argsort]
  by (simp add: ndim_def)

section \<open>Properties of the Main dataset validation\<close>

lemma check_links_Some:
  "check_links file attrs names b = Some r \<longleftrightarrow>
     (\<forall>n\<in>set names. resolve_link file attrs n \<noteq> None) \<and>
     r = (b \<and> (\<forall>n\<in>set names. \<forall>obj. resolve_link file attrs n = Some obj \<longrightarrow> is_dataset obj))"
  by (induction names arbitrary: b) (auto split: option.splits)

lemma check_if_main_True:
  "check_if_main file h5_main = Inr True \<longleftrightarrow>
   (\<exists>main_shape attrs pi si.
      h5_main = Dataset main_shape attrs \<and> length main_shape = 2 \<and>
      linked_shape file attrs ''Position_Indices'' = Some pi \<and>
      linked_shape file attrs ''Position_Values'' = Some pi \<and>
      linked_shape file attrs ''Spectroscopic_Indices'' = Some si \<and>
      linked_shape file attrs ''Spectroscopic_Values'' = Some si \<and>
      ''quantity'' \<in> set (map fst attrs) \<and> ''units'' \<in> set (map fst attrs) \<and>
      pi \<noteq> [] \<and> pi ! 0 = main_shape ! 0 \<and>
      2 \<le> length si \<and> si ! 1 = main_shape ! 1)"
  by (cases h5_main)
     (auto simp: check_if_main_def check_links_Some dset_names_def linked_shape_def
        anc_shape_match_def bind_def shape_of_def extent_def is_dataset_def
        split: option.splits h5_object.splits if_splits sum.splits)

text \<open>
  C7, as the specification states it, fails: a 3 by 4 dataset whose two Position
  ancillaries are one-dimensional, of shape \<open>[3]\<close>, passes \<^const>\<open>check_if_main\<close>, although
  the linked ancillaries are not each 2-D.
\<close>

theorem check_if_main_accepts_1d_ancillaries:
  "check_if_main
     [(''/pi'', Dataset [3] []), (''/pv'', Dataset [3] []),
      (''/si'', Dataset [1, 4] []), (''/sv'', Dataset [1, 4] [])]
     (Dataset [3, 4]
        [(''Position_Indices'', Reference ''/pi''), (''Position_Values'', Reference ''/pv''),
         (''Spectroscopic_Indices'', Reference ''/si''),
         (''Spectroscopic_Values'', Reference ''/sv''),
         (''quantity'', Text ''Current''), (''units'', Text ''nA'')]) = Inr True
   \<and> \<not> spec_is_main
     [(''/pi'', Dataset [3] []), (''/pv'', Dataset [3] []),
      (''/si'', Dataset [1, 4] []), (''/sv'', Dataset [1, 4] [])]
     (Dataset [3, 4]
        [(''Position_Indices'', Reference ''/pi''), (''Position_Values'', Reference ''/pv''),
         (''Spectroscopic_Indices'', Reference ''/si''),
         (''Spectroscopic_Values'', Reference ''/sv''),
         (''quantity'', Text ''Current''), (''units'', Text ''nA'')])"
  by code_simp

text \<open>
  C7 (amended): \<^const>\<open>check_if_main\<close> returns True exactly when the candidate is a 2-D
  dataset with the attributes \<^verbatim>\<open>quantity\<close> and \<^verbatim>\<open>units\<close> whose four links
  (Position_Indices, Position_Values, Spectroscopic_Indices, Spectroscopic_Values) each
  resolve to a dataset, the two Position datasets having the same shape, of rank at
  least 1 and first extent the candidate's row count, and the two Spectroscopic datasets
  having the same shape, of rank at least 2 and second extent the candidate's column
  count. The rank of a linked dataset is not otherwise checked.
\<close>

theorem check_if_main_true_iff:
  "check_if_main file h5_main = Inr True \<longleftrightarrow>
   (\<exists>main_shape attrs pi si.
      h5_main = Dataset main_shape attrs \<and> length main_shape = 2 \<and>
      linked_shape file attrs ''Position_Indices'' = Some pi \<and>
      linked_shape file attrs ''Position_Values'' = Some pi \<and>
      linked_shape file attrs ''Spectroscopic_Indices'' = Some si \<and>
      linked_shape file attrs ''Spectroscopic_Values'' = Some si \<and>
      ''quantity'' \<in> set (map fst attrs) \<and> ''units'' \<in> set (map fst attrs) \<and>
      pi \<noteq> [] \<and> pi ! 0 = main_shape ! 0 \<and>
      2 \<le> length si \<and> si ! 1 = main_shape ! 1)"
  by (rule check_if_main_True)

theorem check_if_main_true_iff_witness:
  "check_if_main
     [(''/pi'', Dataset [3, 1] []), (''/pv'', Dataset [3, 1] []),
      (''/si'', Dataset [1, 4] []), (''/sv'', Dataset [1, 4] [])]
     (Dataset [3, 4]
        [(''Position_Indices'', Reference ''/pi''), (''Position_Values'', Reference ''/pv''),
         (''Spectroscopic_Indices'', Reference ''/si''),
         (''Spectroscopic_Values'', Reference ''/sv''),
         (''quantity'', Text ''Current''), (''units'', Text ''nA'')]) = Inr True"
  by (subst check_if_main_true_iff) (simp add: linked_shape_def resolve_link_def)

text \<open>
  C8: \<^const>\<open>check_if_main\<close> is meant never to raise, and the link loop does turn every
  unresolved link into False. The claim fails on the code after the loop: when the
  Position_Indices link resolves to a group, reading its \<^verbatim>\<open>.shape\<close> raises
  AttributeError; when the Spectroscopic ancillaries are one-dimensional, reading
  \<^verbatim>\<open>shape[1]\<close> raises IndexError.
\<close>

theorem check_if_main_raises:
  "check_if_main
     [(''/pi'', Group []), (''/pv'', Dataset [3, 1] []),
      (''/si'', Dataset [1, 4] []), (''/sv'', Dataset [1, 4] [])]
     (Dataset [3, 4]
        [(''Position_Indices'', Reference ''/pi''), (''Position_Values'', Reference ''/pv''),
         (''Spectroscopic_Indices'', Reference ''/si''),
         (''Spectroscopic_Values'', Reference ''/sv''),
         (''quantity'', Text ''Current''), (''units'', Text ''nA'')]) = Inl AttributeError
   \<and> check_if_main
     [(''/pi'', Dataset [3, 1] []), (''/pv'', Dataset [3, 1] []),
      (''/si'', Dataset [4] []), (''/sv'', Dataset [4] [])]
     (Dataset [3, 4]
        [(''Position_Indices'', Reference ''/pi''), (''Position_Values'', Reference ''/pv''),
         (''Spectroscopic_Indices'', Reference ''/si''),
         (''Spectroscopic_Values'', Reference ''/sv''),
         (''quantity'', Text ''Current''), (''units'', Text ''nA'')]) = Inl IndexError"
  by code_simp

section \<open>Properties of the reduction of ancillary datasets\<close>

lemma write_reduced_anc_dsets_all_result:
  assumes "set dim_name = set (labels h5_inds)"
    and "write_reduced_anc_dsets h5_parent_group h5_inds h5_vals dim_name basename is_spec
           = Inr (g, i, v)"
  shows "i = single_step \<and> v = single_step"
  using assms
  by (auto simp add: write_reduced_anc_dsets_def bind_def Let_def list_all_iff
      split: sum.splits if_splits)

text \<open>
  C9: when \<^const>\<open>write_reduced_anc_dsets\<close> is asked to drop every dimension, and its
  checks on the arguments pass (the orientation is given or the index matrix is not
  square, and the two dataset names are free in the parent group), the new indices and
  values datasets are both the 1 by 1 matrix holding 0, labelled \<^verbatim>\<open>Single_Step\<close>,
  whatever the size of the input matrices.
\<close>

theorem write_reduced_anc_dsets_all_dropped:
  assumes "set dim_name = set (labels h5_inds)"
    and "guess_is_spec (mat h5_inds) is_spec = Inr sp"
    and "choose_basename basename sp @ ''_Indices'' \<notin> set h5_parent_group"
    and "choose_basename basename sp @ ''_Values'' \<notin> set h5_parent_group"
  shows "write_reduced_anc_dsets h5_parent_group h5_inds h5_vals dim_name basename is_spec =
     Inr (h5_parent_group @ [choose_basename basename sp @ ''_Indices'',
                             choose_basename basename sp @ ''_Values''],
          single_step, single_step)
     \<and> mat (single_step :: index anc_dataset) = \<lparr>nrows = 1, ncols = 1, elems = [0]\<rparr>
     \<and> labels (single_step :: index anc_dataset) = [''Single_Step'']"
  using assms
  by (simp add: write_reduced_anc_dsets_def bind_def Let_def list_all_iff single_step_def)

theorem write_reduced_anc_dsets_all_dropped_witness:
  "write_reduced_anc_dsets [''Raw_Data'']
     \<lparr>mat = of_rows 6 [[0, 1, 2, 0, 1, 2], [0, 0, 0, 1, 1, 1 :: index]],
      labels = [''Bias'', ''Cycle''], units = [''V'', ''a. u.''], region_refs = []\<rparr>
     \<lparr>mat = of_rows 6 [[10, 11, 12, 10, 11, 12], [0, 0, 0, 1, 1, 1 :: int]],
      labels = [''Bias'', ''Cycle''], units = [''V'', ''a. u.''], region_refs = []\<rparr>
     [''Cycle'', ''Bias''] None None
   = Inr ([''Raw_Data'', ''Spectroscopic_Indices'', ''Spectroscopic_Values''],
          single_step, single_step)"
proof -
  let ?i = "\<lparr>mat = of_rows 6 [[0, 1, 2, 0, 1, 2], [0, 0, 0, 1, 1, 1 :: index]],
      labels = [''Bias'', ''Cycle''], units = [''V'', ''a. u.''], region_refs = []\<rparr>"
  have a: "set [''Cycle'', ''Bias''] = set (labels ?i)" by auto
  have b: "guess_is_spec (mat ?i) None = Inr True"
    by (simp add: guess_is_spec_def of_rows_def)
  have c: "choose_basename None True = ''Spectroscopic''"
    by (simp add: choose_basename_def)
  show ?thesis
    using write_reduced_anc_dsets_all_dropped[OF a b,
        where basename = None and h5_parent_group = "[''Raw_Data'']"
          and h5_vals = "\<lparr>mat = of_rows 6 [[10, 11, 12, 10, 11, 12], [0, 0, 0, 1, 1, 1 :: int]],
                labels = [''Bias'', ''Cycle''], units = [''V'', ''a. u.''], region_refs = []\<rparr>"]
    by (simp add: c)
qed

section \<open>Properties of the extraction of unit values\<close>

lemma length_np_where_map: "length (np_where (map f xs)) = length (filter f xs)"
proof -
  have "length (np_where (map f xs)) = card {i. i < length xs \<and> f (xs ! i)}"
    unfolding np_where_def
    by (subst length_filter_conv_card) (auto intro!: arg_cong[where f = card])
  then show ?thesis by (simp add: length_filter_conv_card)
qed

lemma count_non_unit_steps:
  fixes ss :: "int list"
  shows "length (np_where (map (\<lambda>u. u - 1 \<noteq> 0) (np_unique ss))) = card {u \<in> set ss. u \<noteq> 1}"
proof -
  have "distinct (np_unique ss)" "set (np_unique ss) = set ss"
    by (simp_all add: np_unique_def)
  then have "length (filter (\<lambda>u. u - 1 \<noteq> 0) (np_unique ss)) = card ({u. u - 1 \<noteq> 0} \<inter> set ss)"
    by (simp add: distinct_length_filter)
  also have "{u. u - 1 \<noteq> 0} \<inter> set ss = {u \<in> set ss. u \<noteq> 1}" by auto
  finally show ?thesis by (simp add: length_np_where_map)
qed

lemma tile_bounds_irregular:
  assumes "card {g \<in> set (gaps row). g \<noteq> 1} > 1"
  shows "tile_bounds row = Inl ValueError"
proof (cases "row = []")
  case True then show ?thesis by (simp add: tile_bounds_def)
next
  case False
  have "{u \<in> set (1 # gaps row). u \<noteq> 1} = {g \<in> set (gaps row). g \<noteq> 1}" by auto
  then have "length (np_where (map (\<lambda>u. u - 1 \<noteq> 0) (np_unique (1 # gaps row)))) > 1"
    using assms by (simp only: count_non_unit_steps)
  then show ?thesis using False by (simp add: tile_bounds_def Let_def gaps_def)
qed

lemma loop_fails:
  assumes "n \<in> set names" "unit_step_inds (mrow inds_mat (list_index all_dim_names n)) = Inl e"
  shows "isl (unit_values_loop inds_mat vals_mat all_dim_names dim_names names uv)"
  using assms
proof (induction names arbitrary: uv)
  case Nil then show ?case by simp
next
  case (Cons a names)
  show ?case
  proof (cases "unit_step_inds (mrow inds_mat (list_index all_dim_names a))")
    case (Inl e') then show ?thesis by (simp add: bind_def Let_def)
  next
    case (Inr si)
    then have "a \<noteq> n" using Cons.prems by auto
    then have "n \<in> set names" using Cons.prems by simp
    then show ?thesis using Cons.IH Cons.prems(2) Inr by (simp add: bind_def Let_def)
  qed
qed

lemma list_index_nth: "distinct xs \<Longrightarrow> r < length xs \<Longrightarrow> list_index xs (xs ! r) = r"
proof (induction xs arbitrary: r)
  case Nil then show ?case by simp
next
  case (Cons x xs)
  then show ?case by (cases r) (auto simp: list_index_def)
qed

lemma get_unit_values_irregular:
  assumes "distinct all_dim_names" "r < length all_dim_names"
    and "card {g \<in> set (gaps (mrow (spec_oriented ds_inds ds_inds is_spec) r)). g \<noteq> 1} > 2"
  shows "isl (get_unit_values ds_inds ds_vals dim_names all_dim_names is_spec)"
proof -
  let ?im = "spec_oriented ds_inds ds_inds is_spec"
  have "tile_bounds (mrow ?im r) = Inl ValueError"
    using assms(3) by (intro tile_bounds_irregular) simp
  then have "unit_step_inds (mrow ?im (list_index all_dim_names (all_dim_names ! r))) = Inl ValueError"
    using assms(1,2) by (simp add: unit_step_inds_def bind_def list_index_nth)
  moreover have "all_dim_names ! r \<in> set all_dim_names" using assms(2) by simp
  ultimately have "isl (unit_values_loop ?im vm all_dim_names dn all_dim_names uv)" for vm dn uv
    using loop_fails by blast
  then show ?thesis
    by (auto simp: get_unit_values_def Let_def bind_def split: option.splits)
qed

text \<open>
  C6: when, for a row of the index matrix (in the orientation whose rows are the
  dimensions, the names of the dimensions being distinct), the gaps between consecutive
  positions of the row minimum take more than two distinct values other than 1,
  \<^const>\<open>get_unit_values\<close> raises an error and returns no unit values. (The code already
  refuses two such values.)
\<close>

theorem get_unit_values_irregular_raises:
  assumes "distinct all_dim_names" "r < length all_dim_names"
    and "card {g \<in> set (gaps (mrow (spec_oriented ds_inds ds_inds is_spec) r)). g \<noteq> 1} > 2"
  shows "isl (get_unit_values ds_inds ds_vals dim_names all_dim_names is_spec)"
  using assms by (rule get_unit_values_irregular)

theorem get_unit_values_irregular_raises_witness:
  "gaps (mrow (spec_oriented (of_rows 10 [[0, 1, 0, 1, 1, 0, 1, 1, 1, 0 :: index]])
                 (of_rows 10 [[0, 1, 0, 1, 1, 0, 1, 1, 1, 0 :: index]]) None) 0) = [2, 3, 4]
   \<and> isl (get_unit_values (of_rows 10 [[0, 1, 0, 1, 1, 0, 1, 1, 1, 0]])
            (of_rows 10 [[5, 6, 5, 6, 6, 5, 6, 6, 6, 5 :: int]]) None [''X''] None)"
proof -
  let ?i = "of_rows 10 [[0, 1, 0, 1, 1, 0, 1, 1, 1, 0 :: index]]"
  have g: "gaps (mrow (spec_oriented ?i ?i None) 0) = [2, 3, 4]" by code_simp
  have "{g \<in> set [2, 3, 4 :: int]. g \<noteq> 1} = {2, 3, 4}" by auto
  then have c: "card {g \<in> set (gaps (mrow (spec_oriented ?i ?i None) 0)). g \<noteq> 1} > 2"
    unfolding g by simp
  have d: "distinct [''X'']" "0 < length [''X'']" by simp_all
  show ?thesis
    using get_unit_values_irregular_raises[OF d c] g by simp
qed

subsection \<open>Rows built by Cartesian tiling\<close>

text \<open>A row \<^verbatim>\<open>np.tile(np.repeat(arange(L), P), T)\<close> is analysed by \<^const>\<open>unit_step_inds\<close> into
  the positions \<open>0, P, 2P, \<dots>\<close> of its first tile, at which the value row holds the ticks in
  order.\<close>

lemma upt_split_map: "[0..<a + b] = [0..<a] @ map (\<lambda>i. i + a) [0..<b]"
proof -
  have "[0..<a + b] = [0..<a] @ [a..<a + b]"
    using upt_add_eq_append[of 0 a b] by simp
  moreover have "map (\<lambda>i. i + a) [0..<b] = [a..<a + b]"
    using map_add_upt[of a b] by (simp only: add.commute)
  ultimately show ?thesis by simp
qed

lemma np_where_append:
  "np_where (xs @ ys) = np_where xs @ map (\<lambda>i. i + length xs) (np_where ys)"
proof -
  have b: "filter (\<lambda>i. (xs @ ys) ! i) [0..<length xs] = filter (\<lambda>i. xs ! i) [0..<length xs]"
    by (rule filter_cong) (auto simp: nth_append)
  have "np_where (xs @ ys) = filter (\<lambda>i. (xs @ ys) ! i) [0..<length xs]
       @ filter (\<lambda>i. (xs @ ys) ! i) (map (\<lambda>i. i + length xs) [0..<length ys])"
    unfolding np_where_def length_append upt_split_map filter_append ..
  also have "filter (\<lambda>i. (xs @ ys) ! i) (map (\<lambda>i. i + length xs) [0..<length ys])
       = map (\<lambda>i. i + length xs) (filter (\<lambda>i. ys ! i) [0..<length ys])"
    by (simp add: filter_map comp_def nth_append)
  finally show ?thesis unfolding b np_where_def .
qed

lemma np_where_replicate_False: "np_where (replicate n False) = []"
  unfolding np_where_def filter_empty_conv by simp

lemma np_where_replicate_True: "np_where (replicate n True) = [0..<n]"
  unfolding np_where_def filter_id_conv by simp

lemma np_where_blocks:
  assumes "0 < P"
  shows "np_where (replicate P False @ concat (replicate n (True # replicate (P - 1) False)))
           = map (\<lambda>t. (t + 1) * P) [0..<n]"
proof (induction n)
  case 0
  then show ?case by (simp add: np_where_replicate_False)
next
  case (Suc n)
  let ?cb = "True # replicate (P - 1) False"
  have blk: "np_where ?cb = [0]"
    using np_where_append[of "[True]" "replicate (P - 1) False"]
    by (simp add: np_where_replicate_False np_where_def)
  have "concat (replicate (Suc n) ?cb) = concat (replicate n ?cb) @ ?cb"
    by (metis append_Nil2 concat.simps(2) concat_append replicate_Suc replicate_append_same concat.simps(1))
  then have split: "replicate P False @ concat (replicate (Suc n) ?cb)
      = (replicate P False @ concat (replicate n ?cb)) @ ?cb"
    by simp
  have len: "length (replicate P False @ concat (replicate n ?cb)) = (n + 1) * P"
    using assms by (simp add: length_concat sum_list_replicate)
  show ?case
    unfolding split np_where_append[of "replicate P False @ concat (replicate n ?cb)" ?cb] Suc.IH blk len
    by simp
qed

lemma np_diff_append:
  fixes xs :: "('a :: minus) list"
  assumes "xs \<noteq> []" "ys \<noteq> []"
  shows "np_diff (xs @ ys) = np_diff xs @ (hd ys - last xs) # np_diff ys"
  using assms
proof (induction xs)
  case Nil
  then show ?case by simp
next
  case (Cons x xs)
  show ?case
  proof (cases xs)
    case Nil
    then show ?thesis using Cons.prems by (cases ys) simp_all
  next
    case (Cons y zs)
    then show ?thesis using Cons.IH Cons.prems by simp
  qed
qed

lemma np_diff_replicate:
  fixes x :: "'a :: group_add"
  shows "np_diff (replicate n x) = replicate (n - 1) 0"
proof (induction n)
  case 0
  then show ?case by simp
next
  case (Suc n)
  then show ?case by (cases n) simp_all
qed

lemma np_diff_snoc:
  fixes xs :: "('a :: minus) list"
  shows "xs \<noteq> [] \<Longrightarrow> np_diff (xs @ [y]) = np_diff xs @ [y - last xs]"
  using np_diff_append[of xs "[y]"] by simp

lemma np_diff_upt: "np_diff (map int [a..<a + n]) = replicate (n - 1) 1"
proof (induction n)
  case 0
  then show ?case by simp
next
  case (Suc n)
  show ?case
  proof (cases "n = 0")
    case True
    then show ?thesis by simp
  next
    case False
    have ne: "map int [a..<a + n] \<noteq> []" using False by simp
    have lst: "last (map int [a..<a + n]) = int (a + n) - 1"
      using False by (simp add: last_map)
    have "np_diff (map int [a..<a + Suc n]) = np_diff (map int [a..<a + n] @ [int (a + n)])"
      by simp
    also have "\<dots> = replicate (n - 1) 1 @ [1]"
      unfolding np_diff_snoc[OF ne] lst Suc.IH by simp
    also have "\<dots> = replicate (Suc n - 1) 1"
      using False by (metis Suc_pred diff_Suc_1 neq0_conv replicate_Suc replicate_append_same)
    finally show ?thesis .
  qed
qed

lemma length_np_repeat: "length (np_repeat xs p) = length xs * p"
  by (induction xs) (simp_all add: np_repeat_def)

lemma np_repeat_snoc: "np_repeat (xs @ [x]) p = np_repeat xs p @ replicate p x"
  by (simp add: np_repeat_def)

lemma np_tile_Suc: "np_tile xs (Suc t) = np_tile xs t @ xs"
proof (induction t)
  case 0
  then show ?case by (simp add: np_tile_def)
next
  case (Suc t)
  then show ?case by (simp add: np_tile_def)
qed

lemma length_np_tile: "length (np_tile xs t) = t * length xs"
  by (induction t) (simp_all add: np_tile_Suc, simp add: np_tile_def)

lemma map_np_tile: "map f (np_tile xs t) = np_tile (map f xs) t"
  by (simp add: np_tile_def map_concat)

lemma zero_test_unit:
  assumes "0 < L" "L \<le> 2 ^ 32"
  shows "map (\<lambda>x. x = 0) (np_repeat (map of_nat [0..<L]) P :: index list)
           = replicate P True @ replicate (P * L - P) False"
  using assms
proof (induction L)
  case 0
  then show ?case by simp
next
  case (Suc L)
  show ?case
  proof (cases "L = 0")
    case True
    then show ?thesis by (simp add: np_repeat_def)
  next
    case False
    have nz: "(of_nat L :: index) \<noteq> 0"
      using False Suc.prems by (intro of_nat_neq_0) simp_all
    have "map (\<lambda>x. x = 0) (np_repeat (map of_nat [0..<Suc L]) P :: index list)
        = map (\<lambda>x. x = 0) (np_repeat (map of_nat [0..<L]) P :: index list) @ replicate P False"
      using nz by (simp add: np_repeat_snoc)
    also have "\<dots> = replicate P True @ replicate (P * L - P) False @ replicate P False"
      using Suc.IH False Suc.prems by simp
    also have "replicate (P * L - P) False @ replicate P False = replicate (P * Suc L - P) False"
      using False by (simp add: replicate_add[symmetric])
    finally show ?thesis .
  qed
qed

lemma tile_starts_of_Suc:
  "tile_starts_of P M (Suc T) = tile_starts_of P M T @ [T * M..<T * M + P]"
  by (simp add: tile_starts_of_def)

lemma length_tile_starts_of: "length (tile_starts_of P M T) = T * P"
  by (induction T) (simp_all add: tile_starts_of_Suc, simp add: tile_starts_of_def)

lemma np_where_tiles:
  assumes "P \<le> M"
  shows "np_where (np_tile (replicate P True @ replicate (M - P) False) T) = tile_starts_of P M T"
proof (induction T)
  case 0
  then show ?case by (simp add: np_tile_def np_where_def tile_starts_of_def)
next
  case (Suc T)
  let ?zt = "replicate P True @ replicate (M - P) False"
  have one: "np_where ?zt = [0..<P]"
    unfolding np_where_append by (simp add: np_where_replicate_True np_where_replicate_False)
  have len: "length (np_tile ?zt T) = T * M"
    using assms by (simp add: length_np_tile)
  have "map (\<lambda>i. i + T * M) [0..<P] = [T * M..<T * M + P]"
    using map_add_upt[of "T * M" P] by (simp only: add.commute)
  then show ?case
    unfolding np_tile_Suc np_where_append[of "np_tile ?zt T" ?zt] Suc.IH one len tile_starts_of_Suc
    by simp
qed

lemma nth_tile_starts_of:
  "t < T \<Longrightarrow> i < P \<Longrightarrow> tile_starts_of P M T ! (t * P + i) = t * M + i"
proof (induction T)
  case 0
  then show ?case by simp
next
  case (Suc T)
  show ?case
  proof (cases "t < T")
    case True
    have "t * P + i < t * P + P" using Suc.prems(2) by simp
    also have "t * P + P = Suc t * P" by simp
    also have "Suc t * P \<le> T * P" using True by (intro mult_le_mono1) simp
    finally have "t * P + i < T * P" .
    then show ?thesis
      using Suc.IH[OF True Suc.prems(2)]
      by (simp add: tile_starts_of_Suc nth_append length_tile_starts_of)
  next
    case False
    then have "t = T" using Suc.prems by simp
    then show ?thesis
      using Suc.prems by (simp add: tile_starts_of_Suc nth_append length_tile_starts_of)
  qed
qed

lemma step_sizes_tiles:
  assumes "0 < P" "P \<le> M" "0 < T"
  shows "1 # np_diff (map int (tile_starts_of P M T))
       = replicate P 1 @ concat (replicate (T - 1) ((int M - int P + 1) # replicate (P - 1) 1))"
  using assms(3)
proof (induction T)
  case 0
  then show ?case by simp
next
  case (Suc T)
  obtain P' where P: "P = Suc P'" using assms(1) by (cases P) auto
  show ?case
  proof (cases T)
    case 0
    have "tile_starts_of P M (Suc 0) = [0..<0 + P]" by (simp add: tile_starts_of_def)
    then have "np_diff (map int (tile_starts_of P M (Suc 0))) = replicate (P - 1) 1"
      using np_diff_upt[of 0 P] by simp
    then show ?thesis using 0 P by simp
  next
    case (Suc T')
    let ?S = "tile_starts_of P M T"
    let ?G = "int M - int P + 1"
    let ?B = "?G # replicate (P - 1) 1"
    have lenS: "length ?S = Suc (T' * P + P')"
      by (simp add: length_tile_starts_of Suc P)
    then have neS: "map int ?S \<noteq> []" by auto
    have neB: "map int [T * M..<T * M + P] \<noteq> []" using P by simp
    have "last ?S = ?S ! (T' * P + P')"
      using lenS neS by (simp add: last_conv_nth)
    also have "\<dots> = T' * M + P'"
      by (rule nth_tile_starts_of) (simp_all add: Suc P)
    finally have lastS: "last ?S = T' * M + P'" .
    have hdB: "hd (map int [T * M..<T * M + P]) = int (T * M)"
      using P by (simp add: upt_rec)
    have lastS': "last (map int ?S) = int (T' * M + P')"
      using neS lastS by (simp add: last_map)
    have gap: "hd (map int [T * M..<T * M + P]) - last (map int ?S) = ?G"
      unfolding hdB lastS' by (simp add: Suc P)
    have "np_diff (map int (tile_starts_of P M (Suc T)))
        = np_diff (map int ?S) @ ?G # np_diff (map int [T * M..<T * M + P])"
      unfolding tile_starts_of_Suc map_append np_diff_append[OF neS neB] gap ..
    also have "np_diff (map int [T * M..<T * M + P]) = replicate (P - 1) 1"
      by (rule np_diff_upt)
    finally have "1 # np_diff (map int (tile_starts_of P M (Suc T)))
        = (1 # np_diff (map int ?S)) @ ?B" by simp
    also have "1 # np_diff (map int ?S) = replicate P 1 @ concat (replicate T' ?B)"
      using Suc.IH Suc by simp
    also have "(replicate P 1 @ concat (replicate T' ?B)) @ ?B
        = replicate P 1 @ concat (replicate T' ?B @ [?B])"
      by simp
    also have "replicate T' ?B @ [?B] = replicate (Suc T - 1) ?B"
      unfolding Suc by (simp add: replicate_append_same)
    finally show ?thesis .
  qed
qed

lemma tile_slice:
  "k < T \<Longrightarrow> py_slice (np_tile u T) (k * length u) (Suc k * length u) = u"
proof (induction T)
  case 0
  then show ?case by simp
next
  case (Suc T)
  have w: "Suc k * length u - k * length u = length u" by simp
  show ?case
  proof (cases "k < T")
    case True
    have le: "Suc k * length u \<le> T * length u"
      using True by (intro mult_le_mono1) simp
    have le': "k * length u \<le> T * length u"
      using True by (intro mult_le_mono1) simp
    have "length (drop (k * length u) (np_tile u T)) = T * length u - k * length u"
      by (simp add: length_np_tile)
    also have "\<dots> \<ge> length u" using le by simp
    finally have big: "length u \<le> length (drop (k * length u) (np_tile u T))" .
    have "py_slice (np_tile u (Suc T)) (k * length u) (Suc k * length u)
        = take (length u) (drop (k * length u) (np_tile u T) @ u)"
      unfolding py_slice_def w np_tile_Suc using le' by (simp add: length_np_tile)
    also have "\<dots> = take (length u) (drop (k * length u) (np_tile u T))"
      using big by simp
    also have "\<dots> = u"
      using Suc.IH[OF True] unfolding py_slice_def w .
    finally show ?thesis .
  next
    case False
    then have "k = T" using Suc.prems by simp
    then show ?thesis
      unfolding py_slice_def w np_tile_Suc by (simp add: length_np_tile)
  qed
qed

lemma map2_minus_self:
  fixes u :: "('a :: group_add) list"
  shows "map2 (\<lambda>b a. b - a) u u = replicate (length u) 0"
  by (induction u) simp_all

lemma tiles_differ_replicate:
  assumes "2 \<le> T" "u \<noteq> []"
  shows "tiles_differ (replicate T u) = Inr False"
proof -
  obtain T' where T: "T = Suc (Suc T')"
    using assms(1) by (metis Suc_le_D numeral_2_eq_2 Suc_le_mono)
  have same: "list_all (\<lambda>t. length t = length (hd (replicate T u))) (replicate T u)"
    unfolding T by (simp add: list_all_iff)
  have "map (\<lambda>k. map2 (\<lambda>b a. b - a) (replicate T u ! (k + 1)) (replicate T u ! k))
            [0..<length (replicate T u) - 1]
      = map (\<lambda>k. replicate (length u) (0 :: index)) [0..<T - 1]"
    by (rule map_cong) (simp_all add: map2_minus_self)
  also have "\<dots> = replicate (T - 1) (replicate (length u) 0)"
    by (simp add: map_replicate_const)
  finally have d: "concat (map (\<lambda>k. map2 (\<lambda>b a. b - a) (replicate T u ! (k + 1)) (replicate T u ! k))
            [0..<length (replicate T u) - 1])
      = concat (replicate (T - 1) (replicate (length u) (0 :: index)))" by simp
  have ne: "concat (replicate (T - 1) (replicate (length u) (0 :: index))) \<noteq> []"
    using assms(2) unfolding T by simp
  have "set (concat (replicate (T - 1) (replicate (length u) (0 :: index)))) = {0}"
    using assms(2) unfolding T by auto
  then have mx: "Max (set (concat (replicate (T - 1) (replicate (length u) (0 :: index))))) = 0"
    by simp
  show ?thesis
    unfolding tiles_differ_def Let_def d using same ne mx by simp
qed

lemma np_repeat_Cons: "np_repeat (x # xs) p = replicate p x @ np_repeat xs p"
  by (simp add: np_repeat_def)

lemma Min_tiled_row:
  assumes "0 < P" "0 < L" "0 < T"
  shows "Min (set (np_tile (np_repeat (map of_nat [0..<L]) P :: index list) T)) = 0"
proof -
  obtain T' where T: "T = Suc T'" using assms(3) by (cases T) auto
  have "[0..<L] = 0 # [1..<L]" using assms(2) by (simp add: upt_rec)
  then have "np_repeat (map of_nat [0..<L]) P
      = replicate P (0 :: index) @ np_repeat (map of_nat [1..<L]) P"
    by (simp add: np_repeat_Cons)
  then have "(0 :: index) \<in> set (np_repeat (map of_nat [0..<L]) P)"
    using assms(1) by simp
  then have "(0 :: index) \<in> set (np_tile (np_repeat (map of_nat [0..<L]) P) T)"
    unfolding T np_tile_Suc by simp
  then show ?thesis by (intro Min_eqI) simp_all
qed

lemma tile_bounds_eq:
  assumes "row \<noteq> []"
    and "np_where (map (\<lambda>x. x = Min (set row)) row) = starts"
    and "1 # np_diff (map int starts) = ss"
    and "\<not> length (np_where (map (\<lambda>u. u - 1 \<noteq> 0) (np_unique ss))) > 1"
    and "np_where (map (\<lambda>s. s > 1) ss) = ts0"
  shows "tile_bounds row =
     (if length ts0 < 1 then Inr [0, length row]
      else bind (tiles_differ
                   (map (\<lambda>k. py_slice row (((0 # map (\<lambda>i. starts ! i) ts0) @ [length row]) ! k)
                                (((0 # map (\<lambda>i. starts ! i) ts0) @ [length row]) ! (k + 1)))
                      [0..<length ((0 # map (\<lambda>i. starts ! i) ts0) @ [length row]) - 1]))
             (\<lambda>differ. if differ then Inl ValueError
                        else Inr ((0 # map (\<lambda>i. starts ! i) ts0) @ [length row])))"
  using assms(1,4) unfolding tile_bounds_def Let_def assms(2) assms(3) assms(5)
  by simp

lemma tile_bounds_tiled:
  assumes "0 < P" "2 \<le> L" "L \<le> 2 ^ 32" "0 < T"
  shows "\<exists>ts. tile_bounds (np_tile (np_repeat (map of_nat [0..<L]) P :: index list) T) = Inr ts
            \<and> ts ! 0 = 0 \<and> ts ! 1 = L * P"
proof -
  define u where "u = (np_repeat (map of_nat [0..<L]) P :: index list)"
  define row where "row = np_tile u T"
  define M where "M = L * P"
  define G where "G = int M - int P + 1"
  define ss where "ss = replicate P (1 :: int) @ concat (replicate (T - 1) (G # replicate (P - 1) 1))"
  let ?starts = "tile_starts_of P M T"
  let ?tz = "map (\<lambda>t. (t + 1) * P) [0..<T - 1]"
  have L0: "0 < L" using assms(2) by simp
  have lenu: "length u = M" by (simp add: u_def M_def length_np_repeat)
  have Mpos: "0 < M" using assms(1) L0 by (simp add: M_def)
  have PM: "P \<le> M" using L0 by (simp add: M_def)
  have PltM: "P < M"
  proof -
    have "1 * P < L * P" using assms(1,2) by (intro mult_less_mono1) simp_all
    then show ?thesis by (simp add: M_def)
  qed
  have G1: "1 < G" using PltM by (simp add: G_def)
  have lenrow: "length row = T * M" by (simp add: row_def length_np_tile lenu)
  have rowne: "row \<noteq> []" using lenrow assms(4) Mpos by auto
  have mn: "Min (set row) = 0"
    unfolding row_def u_def using assms(1) L0 assms(4) by (rule Min_tiled_row)
  have zt: "map (\<lambda>x. x = 0) u = replicate P True @ replicate (M - P) False"
    unfolding u_def using zero_test_unit[OF L0 assms(3), of P] by (simp add: M_def mult.commute)
  have starts: "np_where (map (\<lambda>x. x = Min (set row)) row) = ?starts"
    unfolding mn unfolding row_def map_np_tile zt by (rule np_where_tiles[OF PM])
  have steps: "1 # np_diff (map int ?starts) = ss"
    unfolding ss_def G_def by (rule step_sizes_tiles[OF assms(1) PM assms(4)])
  have "{u \<in> set ss. u \<noteq> 1} \<subseteq> {G}" by (auto simp: ss_def)
  then have "card {u \<in> set ss. u \<noteq> 1} \<le> card {G}" by (intro card_mono) simp_all
  then have uniq: "\<not> length (np_where (map (\<lambda>u. u - 1 \<noteq> 0) (np_unique ss))) > 1"
    unfolding count_non_unit_steps by simp
  have "map (\<lambda>s. s > 1) ss
      = replicate P False @ concat (replicate (T - 1) (True # replicate (P - 1) False))"
    using G1 by (simp add: ss_def map_concat)
  then have ts0: "np_where (map (\<lambda>s. s > 1) ss) = ?tz"
    using np_where_blocks[OF assms(1), of "T - 1"] by simp
  note tb = tile_bounds_eq[OF rowne starts steps uniq ts0]
  show ?thesis
  proof (cases "T = 1")
    case True
    then have "tile_bounds row = Inr [0, length row]" using tb by simp
    then show ?thesis
      using True lenrow unfolding row_def u_def M_def by simp
  next
    case False
    then have T2: "2 \<le> T" using assms(4) by simp
    let ?ts = "(0 # map (\<lambda>i. ?starts ! i) ?tz) @ [length row]"
    have "map (\<lambda>i. ?starts ! i) ?tz = map (\<lambda>t. (t + 1) * M) [0..<T - 1]"
      unfolding map_map comp_def
    proof (rule map_cong[OF refl])
      fix t assume "t \<in> set [0..<T - 1]"
      then have "t + 1 < T" by simp
      then show "?starts ! ((t + 1) * P) = (t + 1) * M"
        using nth_tile_starts_of[of "t + 1" T 0 P M] assms(1) by simp
    qed
    also have "\<dots> = map (\<lambda>k. k * M) [1..<T]"
    proof -
      have "[1..<T] = map Suc [0..<T - 1]"
        using T2 by (simp add: map_Suc_upt)
      then show ?thesis by (simp add: comp_def)
    qed
    finally have "?ts = 0 # map (\<lambda>k. k * M) [1..<T] @ [T * M]" by (simp add: lenrow)
    also have "\<dots> = map (\<lambda>k. k * M) [0..<Suc T]"
      using T2 by (simp add: upt_rec[of 0])
    finally have ts: "?ts = map (\<lambda>k. k * M) [0..<Suc T]" .
    have "map (\<lambda>k. py_slice row (?ts ! k) (?ts ! (k + 1))) [0..<length ?ts - 1]
        = map (\<lambda>k. u) [0..<T]"
      unfolding ts
    proof (rule map_cong)
      show "[0..<length (map (\<lambda>k. k * M) [0..<Suc T]) - 1] = [0..<T]" by simp
    next
      fix k assume "k \<in> set [0..<T]"
      then have k: "k < T" by simp
      have a: "map (\<lambda>k. k * M) [0..<Suc T] ! k = k * length u"
        using k by (simp add: lenu del: upt_Suc)
      have b: "map (\<lambda>k. k * M) [0..<Suc T] ! (k + 1) = Suc k * length u"
        using k by (simp add: lenu del: upt_Suc)
      show "py_slice row (map (\<lambda>k. k * M) [0..<Suc T] ! k) (map (\<lambda>k. k * M) [0..<Suc T] ! (k + 1)) = u"
        unfolding a b row_def by (rule tile_slice[OF k])
    qed
    also have "\<dots> = replicate T u" by (simp add: map_replicate_const)
    finally have subs: "map (\<lambda>k. py_slice row (?ts ! k) (?ts ! (k + 1))) [0..<length ?ts - 1]
        = replicate T u" .
    have une: "u \<noteq> []" using lenu Mpos by auto
    have "tile_bounds row = Inr ?ts"
      using tb T2 unfolding subs tiles_differ_replicate[OF T2 une] by (simp add: bind_def)
    moreover have "?ts ! 0 = 0" by simp
    moreover have "?ts ! 1 = L * P"
      unfolding ts using T2 by (simp add: M_def del: upt_Suc)
    ultimately show ?thesis unfolding row_def u_def by blast
  qed
qed

lemma last_np_repeat_upt:
  assumes "0 < P"
  shows "last (np_repeat (map of_nat [0..<Suc L]) P :: index list) = of_nat L"
  using assms by (simp add: np_repeat_snoc)

lemma diff_unit:
  assumes "0 < P" "0 < L"
  shows "(0 :: index) # np_diff (np_repeat (map of_nat [0..<L]) P)
       = replicate P 0 @ concat (replicate (L - 1) (1 # replicate (P - 1) 0))"
  using assms(2)
proof (induction L)
  case 0
  then show ?case by simp
next
  case (Suc L)
  obtain P' where P: "P = Suc P'" using assms(1) by (cases P) auto
  show ?case
  proof (cases L)
    case 0
    then show ?thesis
      using np_diff_replicate[of P "0 :: index"] by (simp add: np_repeat_def P)
  next
    case (Suc L')
    let ?u = "np_repeat (map of_nat [0..<L]) P :: index list"
    let ?B = "(1 :: index) # replicate (P - 1) 0"
    have lenu': "length ?u = L * P"
      using length_np_repeat[of "map of_nat [0..<L]" P] by (simp del: upt_Suc)
    have une: "?u \<noteq> []"
    proof
      assume "?u = []"
      then have "length ?u = 0" by (simp only: list.size)
      with lenu' show False by (simp add: Suc P)
    qed
    have rne: "replicate P (of_nat L :: index) \<noteq> []" by (simp add: P)
    have lst: "last ?u = of_nat L'"
      unfolding Suc by (rule last_np_repeat_upt[OF assms(1)])
    have gap: "hd (replicate P (of_nat L :: index)) - last ?u = 1"
      unfolding lst by (simp add: P Suc)
    have "np_diff (np_repeat (map of_nat [0..<Suc L]) P :: index list)
        = np_diff ?u @ 1 # np_diff (replicate P (of_nat L :: index))"
      using np_diff_append[OF une rne] unfolding gap by (simp add: np_repeat_snoc)
    also have "np_diff (replicate P (of_nat L :: index)) = replicate (P - 1) 0"
      by (rule np_diff_replicate)
    finally have "(0 :: index) # np_diff (np_repeat (map of_nat [0..<Suc L]) P)
        = (0 # np_diff ?u) @ ?B" by simp
    also have "0 # np_diff ?u = replicate P 0 @ concat (replicate L' ?B)"
      using Suc.IH Suc by simp
    also have "(replicate P 0 @ concat (replicate L' ?B)) @ ?B
        = replicate P 0 @ concat (replicate L' ?B @ [?B])" by simp
    also have "replicate L' ?B @ [?B] = replicate (Suc L - 1) ?B"
      unfolding Suc by (simp add: replicate_append_same)
    finally show ?thesis .
  qed
qed

lemma unit_step_inds_tiled:
  assumes "0 < P" "2 \<le> L" "L \<le> 2 ^ 32" "0 < T"
  shows "unit_step_inds (np_tile (np_repeat (map of_nat [0..<L]) P :: index list) T)
           = Inr (map (\<lambda>j. j * P) [0..<L])"
proof -
  define u where "u = (np_repeat (map of_nat [0..<L]) P :: index list)"
  have L0: "0 < L" using assms(2) by simp
  have lenu: "length u = L * P" by (simp add: u_def length_np_repeat)
  obtain ts where ts: "tile_bounds (np_tile u T) = Inr ts" "ts ! 0 = 0" "ts ! 1 = L * P"
    using tile_bounds_tiled[OF assms] unfolding u_def by blast
  have sub: "py_slice (np_tile u T) (ts ! 0) (ts ! 1) = u"
    unfolding ts(2,3) using tile_slice[OF assms(4), of u] by (simp add: lenu)
  have "map (\<lambda>d. d \<noteq> 0) ((0 :: index) # np_diff u)
      = replicate P False @ concat (replicate (L - 1) (True # replicate (P - 1) False))"
    unfolding u_def diff_unit[OF assms(1) L0] by (simp add: map_concat)
  then have "np_where (map (\<lambda>d. d \<noteq> 0) ((0 :: index) # np_diff u))
      = map (\<lambda>t. (t + 1) * P) [0..<L - 1]"
    using np_where_blocks[OF assms(1), of "L - 1"] by simp
  also have "\<dots> = map (\<lambda>j. j * P) [1..<L]"
  proof -
    have "[1..<L] = map Suc [0..<L - 1]" using L0 by (simp add: map_Suc_upt)
    then show ?thesis by (simp add: comp_def)
  qed
  finally have fin: "0 # np_where (map (\<lambda>d. d \<noteq> 0) ((0 :: index) # np_diff u))
      = map (\<lambda>j. j * P) [0..<L]"
    using L0 by (simp add: upt_rec[of 0])
  have "unit_step_inds (np_tile u T)
      = Inr (0 # np_where (map (\<lambda>d. d \<noteq> 0)
                 ((0 :: index) # np_diff (py_slice (np_tile u T) (ts ! 0) (ts ! 1)))))"
    unfolding unit_step_inds_def ts(1) bind_def Let_def by simp
  also have "\<dots> = Inr (map (\<lambda>j. j * P) [0..<L])"
    by (simp only: sub fin)
  finally show ?thesis unfolding u_def .
qed

lemma nth_np_repeat:
  "j < length xs \<Longrightarrow> i < P \<Longrightarrow> np_repeat xs P ! (j * P + i) = xs ! j"
proof (induction xs arbitrary: j)
  case Nil
  then show ?case by simp
next
  case (Cons x xs)
  show ?case
  proof (cases j)
    case 0
    then show ?thesis using Cons.prems by (simp add: np_repeat_Cons nth_append)
  next
    case (Suc j')
    then have "np_repeat (x # xs) P ! (j * P + i) = np_repeat xs P ! (j' * P + i)"
      by (simp add: np_repeat_Cons nth_append)
    then show ?thesis using Cons.IH[of j'] Cons.prems Suc by simp
  qed
qed

lemma nth_np_tile: "k < length xs \<Longrightarrow> 0 < T \<Longrightarrow> np_tile xs T ! k = xs ! k"
  by (cases T) (simp_all add: np_tile_def nth_append)

lemma values_at_step_inds:
  assumes "0 < P" "0 < T"
  shows "map (\<lambda>j. np_tile (np_repeat ticks P) T ! j) (map (\<lambda>j. j * P) [0..<length ticks]) = ticks"
proof (rule nth_equalityI)
  show "length (map (\<lambda>j. np_tile (np_repeat ticks P) T ! j) (map (\<lambda>j. j * P) [0..<length ticks]))
      = length ticks" by simp
next
  fix i assume "i < length (map (\<lambda>j. np_tile (np_repeat ticks P) T ! j) (map (\<lambda>j. j * P) [0..<length ticks]))"
  then have i: "i < length ticks" by simp
  have "i * P + 0 < i * P + P" using assms(1) by simp
  also have "i * P + P = Suc i * P" by simp
  also have "\<dots> \<le> length ticks * P" using i by (intro mult_le_mono1) simp
  finally have "i * P < length (np_repeat ticks P)" by (simp add: length_np_repeat)
  then have "np_tile (np_repeat ticks P) T ! (i * P) = np_repeat ticks P ! (i * P + 0)"
    using nth_np_tile[OF _ assms(2)] by simp
  also have "\<dots> = ticks ! i" using i assms(1) by (rule nth_np_repeat)
  finally show "map (\<lambda>j. np_tile (np_repeat ticks P) T ! j) (map (\<lambda>j. j * P) [0..<length ticks]) ! i
      = ticks ! i"
    using i by simp
qed

lemma prod_list_pos: "\<forall>x\<in>set xs. 0 < x \<Longrightarrow> 0 < prod_list (xs :: nat list)"
  by (induction xs) simp_all

lemma mrow_of_rows:
  "\<forall>r\<in>set rows. length r = c \<Longrightarrow> i < length rows \<Longrightarrow> mrow (of_rows c rows) i = rows ! i"
proof (induction rows arbitrary: i)
  case Nil
  then show ?case by simp
next
  case (Cons r rows)
  show ?case
  proof (cases i)
    case 0
    then show ?thesis using Cons.prems by (simp add: mrow_def of_rows_def)
  next
    case (Suc i')
    have "mrow (of_rows c (r # rows)) i = mrow (of_rows c rows) i'"
      using Cons.prems(1) by (simp add: mrow_def of_rows_def Suc)
    then show ?thesis using Cons.IH[of i'] Cons.prems Suc by simp
  qed
qed

lemma tiled_row_parts:
  assumes "i < length lens" "\<forall>x\<in>set lens. 0 < x"
  shows "0 < prod_list (take i (lens :: nat list))"
    and "0 < prod_list lens div prod_list (take (i + 1) lens)"
    and "prod_list lens div prod_list (take (i + 1) lens) * (lens ! i * prod_list (take i lens))
           = prod_list lens"
proof -
  have tk: "\<forall>x\<in>set (take k lens). 0 < x" for k
    using assms(2) by (meson in_set_takeD)
  have dr: "\<forall>x\<in>set (drop k lens). 0 < x" for k
    using assms(2) by (meson in_set_dropD)
  show p: "0 < prod_list (take i lens)" using tk by (rule prod_list_pos)
  have p1: "0 < prod_list (take (i + 1) lens)" using tk by (rule prod_list_pos)
  have d1: "0 < prod_list (drop (i + 1) lens)" using dr by (rule prod_list_pos)
  have "prod_list lens = prod_list (take (i + 1) lens @ drop (i + 1) lens)" by simp
  then have split: "prod_list lens = prod_list (take (i + 1) lens) * prod_list (drop (i + 1) lens)"
    by (simp only: prod_list.append)
  then have dv: "prod_list lens div prod_list (take (i + 1) lens) = prod_list (drop (i + 1) lens)"
    using p1 by simp
  show "0 < prod_list lens div prod_list (take (i + 1) lens)" using dv d1 by simp
  have "take (i + 1) lens = take i lens @ [lens ! i]"
    using assms(1) by (simp add: take_Suc_conv_app_nth)
  then have "prod_list (take (i + 1) lens) = lens ! i * prod_list (take i lens)" by simp
  then show "prod_list lens div prod_list (take (i + 1) lens) * (lens ! i * prod_list (take i lens))
           = prod_list lens"
    using dv split by (simp add: mult.commute)
qed

lemma length_tiled_row:
  assumes "i < length lens" "\<forall>x\<in>set lens. 0 < x" "length xs = lens ! i"
  shows "length (tiled_row lens i xs) = prod_list lens"
  using tiled_row_parts(3)[OF assms(1,2)] assms(3)
  by (simp add: tiled_row_def length_np_tile length_np_repeat)

lemma unit_values_loop_ok:
  assumes "\<forall>n\<in>set names. unit_step_inds (mrow im (list_index all_names n)) = Inr (si n)"
  shows "unit_values_loop im vm all_names dn names uv =
     Inr (\<lambda>k. if k \<in> set names \<and> k \<in> set dn
               then Some (map (\<lambda>j. mrow vm (list_index all_names k) ! j) (si k))
               else uv k)"
  using assms
proof (induction names arbitrary: uv)
  case Nil
  then show ?case by simp
next
  case (Cons n names)
  have step: "unit_step_inds (mrow im (list_index all_names n)) = Inr (si n)"
    using Cons.prems by simp
  have rest: "\<forall>n\<in>set names. unit_step_inds (mrow im (list_index all_names n)) = Inr (si n)"
    using Cons.prems by simp
  show ?case
    unfolding unit_values_loop.simps Let_def step bind_def sum.case Cons.IH[OF rest]
    by auto
qed

lemma length_lt_prod_list:
  "\<forall>x\<in>set xs. 2 \<le> x \<Longrightarrow> xs \<noteq> [] \<Longrightarrow> length xs < prod_list (xs :: nat list)"
proof (induction xs)
  case Nil
  then show ?case by simp
next
  case (Cons x xs)
  show ?case
  proof (cases "xs = []")
    case True
    then show ?thesis using Cons.prems by simp
  next
    case False
    then have "length xs < prod_list xs" using Cons by simp
    then have "Suc (length xs) \<le> prod_list xs" by simp
    moreover have "2 \<le> x" using Cons.prems by simp
    ultimately have "2 * Suc (length xs) \<le> x * prod_list xs"
      using mult_le_mono[of 2 x "Suc (length xs)" "prod_list xs"] by blast
    then show ?thesis by simp
  qed
qed

lemma wf_matrix_of_rows: "\<forall>r\<in>set rows. length r = c \<Longrightarrow> wf_matrix (of_rows c rows)"
  by (induction rows) (simp_all add: wf_matrix_def of_rows_def)

lemma length_concat_grid:
  "length (concat (map (\<lambda>a. map (f a) [0..<c]) [0..<r])) = r * c"
  by (induction r) simp_all

lemma nth_concat_grid:
  "a < r \<Longrightarrow> b < c \<Longrightarrow> concat (map (\<lambda>a. map (f a) [0..<c]) [0..<r]) ! (a * c + b) = f a b"
proof (induction r)
  case 0
  then show ?case by simp
next
  case (Suc r)
  show ?case
  proof (cases "a = r")
    case True
    then show ?thesis using Suc.prems(2) by (simp add: nth_append length_concat_grid)
  next
    case False
    then have a: "a < r" using Suc.prems(1) by simp
    have "a * c + b < Suc a * c" using Suc.prems(2) by simp
    also have "\<dots> \<le> r * c" using a by (intro mult_le_mono1) simp
    finally have "a * c + b < r * c" .
    then show ?thesis using Suc.IH[OF a Suc.prems(2)] by (simp add: nth_append length_concat_grid)
  qed
qed

lemma mtranspose_mtranspose:
  fixes m :: "'a matrix"
  assumes "wf_matrix m"
  shows "mtranspose (mtranspose m) = m"
proof -
  define R where "R = nrows m"
  define C where "C = ncols m"
  define e where "e = elems m"
  define e' where "e' = concat (map (\<lambda>j. map (\<lambda>i. e ! (i * C + j)) [0..<R]) [0..<C])"
  have len: "length e = R * C" using assms by (simp add: wf_matrix_def R_def C_def e_def)
  have inner: "map (\<lambda>i. e' ! (i * R + j)) [0..<C] = map (\<lambda>i. e ! (j * C + i)) [0..<C]"
    if j: "j < R" for j
  proof (rule map_cong[OF refl])
    fix i assume "i \<in> set [0..<C]"
    then have i: "i < C" by simp
    show "e' ! (i * R + j) = e ! (j * C + i)"
      unfolding e'_def by (rule nth_concat_grid[OF i j])
  qed
  have "concat (map (\<lambda>j. map (\<lambda>i. e' ! (i * R + j)) [0..<C]) [0..<R])
          = concat (map (\<lambda>j. map (\<lambda>i. e ! (j * C + i)) [0..<C]) [0..<R])"
    using inner by (intro arg_cong[where f = concat] map_cong) simp_all
  also have "\<dots> = e"
  proof (rule nth_equalityI)
    show "length (concat (map (\<lambda>j. map (\<lambda>i. e ! (j * C + i)) [0..<C]) [0..<R])) = length e"
      by (simp add: length_concat_grid len)
  next
    fix k assume "k < length (concat (map (\<lambda>j. map (\<lambda>i. e ! (j * C + i)) [0..<C]) [0..<R]))"
    then have k: "k < R * C" by (simp add: length_concat_grid)
    then have c: "0 < C" by (cases "C = 0") simp_all
    have a: "k div C < R" using k by (simp add: less_mult_imp_div_less)
    have b: "k mod C < C" using c by simp
    have "concat (map (\<lambda>j. map (\<lambda>i. e ! (j * C + i)) [0..<C]) [0..<R]) ! (k div C * C + k mod C)
            = e ! (k div C * C + k mod C)"
      by (rule nth_concat_grid[OF a b])
    then show "concat (map (\<lambda>j. map (\<lambda>i. e ! (j * C + i)) [0..<C]) [0..<R]) ! k = e ! k"
      by simp
  qed
  finally have "elems (mtranspose (mtranspose m)) = elems m"
    by (simp add: mtranspose_def e'_def e_def R_def C_def)
  moreover have "nrows (mtranspose (mtranspose m)) = nrows m"
    "ncols (mtranspose (mtranspose m)) = ncols m"
    by (simp_all add: mtranspose_def)
  ultimately show ?thesis by simp
qed

lemma build_then_get:
  fixes dims :: "(string \<times> 'v list) list"
  assumes ne: "dims \<noteq> []"
    and dist: "distinct (map fst dims)"
    and len: "\<forall>d\<in>set dims. 2 \<le> length (snd d) \<and> length (snd d) \<le> 2 ^ 32"
    and spec: "is_spec = None \<or> is_spec = Some is_spectral"
  shows "\<exists>inds vals uv.
           build_ind_val_matrices (map snd dims) is_spectral = Inr (inds, vals) \<and>
           get_unit_values inds vals None (map fst dims) is_spec = Inr uv \<and>
           (\<forall>d\<in>set dims. uv (fst d) = Some (snd d)) \<and>
           dom uv = fst ` set dims"
proof -
  define uvs where "uvs = map snd dims"
  define names where "names = map fst dims"
  define lens where "lens = map length uvs"
  define N where "N = prod_list lens"
  define irows :: "index list list"
    where "irows = map (\<lambda>i. tiled_row lens i (map of_nat [0..<lens ! i])) [0..<length lens]"
  define vrows where "vrows = map (\<lambda>i. tiled_row lens i (uvs ! i)) [0..<length lens]"
  define im where "im = of_rows N irows"
  define vm where "vm = of_rows N vrows"
  define P where "P = (\<lambda>i. prod_list (take i lens))"
  define T where "T = (\<lambda>i. prod_list lens div prod_list (take (i + 1) lens))"
  define si where "si = (\<lambda>n. map (\<lambda>j. j * P (list_index names n)) [0..<lens ! list_index names n])"
  have n: "length lens = length dims" "length names = length dims" "length uvs = length dims"
    by (simp_all add: lens_def names_def uvs_def)
  have lens_i: "lens ! i = length (snd (dims ! i))" if "i < length dims" for i
    using that by (simp add: lens_def uvs_def)
  have ge2: "\<forall>x\<in>set lens. 2 \<le> x" using len by (auto simp: lens_def uvs_def)
  then have pos: "\<forall>x\<in>set lens. 0 < x" by auto
  define inds where "inds = (if is_spectral then im else mtranspose im)"
  define vals where "vals = (if is_spectral then vm else mtranspose vm)"
  have build: "build_ind_val_matrices (map snd dims) is_spectral = Inr (inds, vals)"
    using ne
    by (simp add: build_ind_val_matrices_def Let_def im_def vm_def irows_def vrows_def N_def
        lens_def uvs_def inds_def vals_def)
  have il: "\<forall>r\<in>set irows. length r = N"
    unfolding irows_def N_def using pos by (auto simp: length_tiled_row)
  have vl: "\<forall>r\<in>set vrows. length r = N"
    unfolding vrows_def N_def using pos n by (auto simp: length_tiled_row lens_def)
  have irow: "mrow im i = tiled_row lens i (map of_nat [0..<lens ! i])" if "i < length dims" for i
    unfolding im_def using mrow_of_rows[OF il, of i] that n by (simp add: irows_def)
  have vrow: "mrow vm i = tiled_row lens i (uvs ! i)" if "i < length dims" for i
    unfolding vm_def using mrow_of_rows[OF vl, of i] that n by (simp add: vrows_def)
  have steps: "unit_step_inds (mrow im i) = Inr (map (\<lambda>j. j * P i) [0..<lens ! i])"
    if i: "i < length dims" for i
  proof -
    have i': "i < length lens" using i n by simp
    have "lens ! i \<in> set lens" using i' by simp
    then have a: "2 \<le> lens ! i" using ge2 by blast
    have "dims ! i \<in> set dims" using i by simp
    then have b: "lens ! i \<le> 2 ^ 32" using len lens_i[OF i] by auto
    show ?thesis
      unfolding irow[OF i] tiled_row_def
      using unit_step_inds_tiled[OF tiled_row_parts(1)[OF i' pos] a b tiled_row_parts(2)[OF i' pos]]
      by (simp add: P_def)
  qed
  have vals: "map (\<lambda>j. mrow vm i ! j) (map (\<lambda>j. j * P i) [0..<lens ! i]) = snd (dims ! i)"
    if i: "i < length dims" for i
  proof -
    have i': "i < length lens" using i n by simp
    have u: "uvs ! i = snd (dims ! i)" using i by (simp add: uvs_def)
    show ?thesis
      unfolding vrow[OF i] tiled_row_def u lens_i[OF i] P_def
      by (rule values_at_step_inds[OF tiled_row_parts(1)[OF i' pos] tiled_row_parts(2)[OF i' pos]])
  qed
  have idx: "list_index names (names ! i) = i" if "i < length dims" for i
    using list_index_nth[of names i] dist that n by (simp add: names_def)
  have all_steps: "\<forall>nm\<in>set names. unit_step_inds (mrow im (list_index names nm)) = Inr (si nm)"
  proof
    fix nm assume "nm \<in> set names"
    then obtain i where i: "i < length dims" "nm = names ! i"
      using n by (metis in_set_conv_nth)
    show "unit_step_inds (mrow im (list_index names nm)) = Inr (si nm)"
      unfolding si_def i(2) idx[OF i(1)] by (rule steps[OF i(1)])
  qed
  define uv where "uv = (\<lambda>k. if k \<in> set names \<and> k \<in> set names
               then Some (map (\<lambda>j. mrow vm (list_index names k) ! j) (si k))
               else Map.empty k)"
  have loop: "unit_values_loop im vm names names names Map.empty = Inr uv"
    unfolding uv_def by (rule unit_values_loop_ok[OF all_steps])
  have shp: "nrows im = length dims" "ncols im = N" "nrows vm = length dims" "ncols vm = N"
    using n by (simp_all add: im_def vm_def of_rows_def irows_def vrows_def)
  have "lens \<noteq> []" using ne n by auto
  then have "length lens < prod_list lens"
    by (rule length_lt_prod_list[OF ge2])
  then have wide: "nrows im < ncols im" using shp n by (simp add: N_def)
  have wfi: "wf_matrix im" unfolding im_def using il by (rule wf_matrix_of_rows)
  have wfv: "wf_matrix vm" unfolding vm_def using vl by (rule wf_matrix_of_rows)
  have oi: "spec_oriented inds inds is_spec = im" and ov: "spec_oriented inds vals is_spec = vm"
  proof -
    show "spec_oriented inds inds is_spec = im"
    proof (cases is_spectral)
      case True
      then show ?thesis using spec wide by (auto simp: spec_oriented_def inds_def)
    next
      case False
      have "\<not> nrows (mtranspose im) < ncols (mtranspose im)"
        using wide by (simp add: mtranspose_def)
      then show ?thesis
        using False spec by (auto simp: spec_oriented_def inds_def mtranspose_mtranspose[OF wfi])
    qed
    show "spec_oriented inds vals is_spec = vm"
    proof (cases is_spectral)
      case True
      then show ?thesis using spec wide by (auto simp: spec_oriented_def inds_def vals_def)
    next
      case False
      have "\<not> nrows (mtranspose im) < ncols (mtranspose im)"
        using wide by (simp add: mtranspose_def)
      then show ?thesis
        using False spec
        by (auto simp: spec_oriented_def inds_def vals_def mtranspose_mtranspose[OF wfv])
    qed
  qed
  have same: "(nrows inds, ncols inds) = (nrows vals, ncols vals)"
    using shp by (simp add: inds_def vals_def mtranspose_def)
  have get: "get_unit_values inds vals None (map fst dims) is_spec = Inr uv"
    unfolding get_unit_values_def oi ov Let_def
    using loop shp n same by (simp add: names_def bind_def)
  have each: "\<forall>d\<in>set dims. uv (fst d) = Some (snd d)"
  proof
    fix d assume "d \<in> set dims"
    then obtain i where i: "i < length dims" "d = dims ! i" by (metis in_set_conv_nth)
    have nm: "fst d = names ! i" using i by (simp add: names_def)
    have mem: "names ! i \<in> set names" using i n by simp
    show "uv (fst d) = Some (snd d)"
      unfolding nm uv_def si_def idx[OF i(1)] using mem vals[OF i(1)] i(2) by simp
  qed
  have dom: "dom uv = fst ` set dims"
    by (auto simp: uv_def names_def dom_def)
  show ?thesis using build get each dom by blast
qed

text \<open>
  C5. Build, then extract. For 2 to 5 dimensions with distinct names, each with 2 to 5
  tick values, the matrices built by Cartesian tiling, in the Spectroscopic or in the
  Position orientation, are accepted by \<^verbatim>\<open>get_unit_values\<close>, whether the orientation is
  stated to it or guessed by it from the shape, and the dictionary returned holds, for
  every dimension, exactly its original ordered sequence of tick values.
\<close>

theorem build_get_unit_values_round_trip:
  fixes dims :: "(string \<times> 'v list) list"
  assumes "2 \<le> length dims" "length dims \<le> 5"
    and "distinct (map fst dims)"
    and "\<forall>d\<in>set dims. 2 \<le> length (snd d) \<and> length (snd d) \<le> 5"
    and "is_spec = None \<or> is_spec = Some is_spectral"
  shows "\<exists>inds vals uv.
           build_ind_val_matrices (map snd dims) is_spectral = Inr (inds, vals) \<and>
           get_unit_values inds vals None (map fst dims) is_spec = Inr uv \<and>
           (\<forall>d\<in>set dims. uv (fst d) = Some (snd d)) \<and>
           dom uv = fst ` set dims"
proof (rule build_then_get)
  show "dims \<noteq> []" using assms(1) by auto
  show "distinct (map fst dims)" by (rule assms(3))
  show "\<forall>d\<in>set dims. 2 \<le> length (snd d) \<and> length (snd d) \<le> 2 ^ 32"
  proof
    fix d assume "d \<in> set dims"
    then have "2 \<le> length (snd d) \<and> length (snd d) \<le> 5" using assms(4) by blast
    then show "2 \<le> length (snd d) \<and> length (snd d) \<le> 2 ^ 32" by simp
  qed
  show "is_spec = None \<or> is_spec = Some is_spectral" by (rule assms(5))
qed

theorem build_get_unit_values_round_trip_witness:
  "(\<exists>inds vals uv.
     build_ind_val_matrices [[10, 20 :: int], [1, 2, 3]] True = Inr (inds, vals) \<and>
     get_unit_values inds vals None [''X'', ''Y''] None = Inr uv \<and>
     uv ''X'' = Some [10, 20] \<and> uv ''Y'' = Some [1, 2, 3] \<and> dom uv = {''X'', ''Y''})
   \<and> (\<exists>inds vals uv.
     build_ind_val_matrices [[10, 20 :: int], [1, 2, 3]] False = Inr (inds, vals) \<and>
     get_unit_values inds vals None [''X'', ''Y''] (Some False) = Inr uv \<and>
     uv ''X'' = Some [10, 20] \<and> uv ''Y'' = Some [1, 2, 3] \<and> dom uv = {''X'', ''Y''})
   \<and> (\<exists>inds vals uv.
     build_ind_val_matrices [[10, 20 :: int], [1, 2, 3]] False = Inr (inds, vals) \<and>
     get_unit_values inds vals None [''X'', ''Y''] None = Inr uv \<and>
     uv ''X'' = Some [10, 20] \<and> uv ''Y'' = Some [1, 2, 3] \<and> dom uv = {''X'', ''Y''})"
  using build_get_unit_values_round_trip
      [of "[(''X'', [10, 20 :: int]), (''Y'', [1, 2, 3])]" None True]
    build_get_unit_values_round_trip
      [of "[(''X'', [10, 20 :: int]), (''Y'', [1, 2, 3])]" "Some False" False]
    build_get_unit_values_round_trip
      [of "[(''X'', [10, 20 :: int]), (''Y'', [1, 2, 3])]" None False]
  by simp

section \<open>The round trip through the N-dimensional form\<close>

subsection \<open>Flat positions and multi-indices\<close>

lemma offset_Cons: "offset (i # idx) (s # strd) = i * s + offset idx strd"
  by (simp add: offset_def)

lemma length_strides: "length (strides ds) = length ds"
  by (induction ds) simp_all

lemma length_unravel: "length (unravel ds k) = length ds"
  by (induction ds arbitrary: k) simp_all

lemma unravel_valid: "k < prod_list ds \<Longrightarrow> list_all2 (<) (unravel ds k) ds"
proof (induction ds arbitrary: k)
  case Nil
  then show ?case by simp
next
  case (Cons d ds)
  have k: "k < d * prod_list ds" using Cons.prems by simp
  then have p: "0 < prod_list ds" by (cases "prod_list ds = 0") simp_all
  have a: "k div prod_list ds < d" using k by (simp add: less_mult_imp_div_less)
  have b: "k mod prod_list ds < prod_list ds" using p by simp
  show ?case using a Cons.IH[OF b] by simp
qed

lemma offset_unravel: "k < prod_list ds \<Longrightarrow> offset (unravel ds k) (strides ds) = k"
proof (induction ds arbitrary: k)
  case Nil
  then show ?case by (simp add: offset_def)
next
  case (Cons d ds)
  have k: "k < d * prod_list ds" using Cons.prems by simp
  then have p: "0 < prod_list ds" by (cases "prod_list ds = 0") simp_all
  have b: "k mod prod_list ds < prod_list ds" using p by simp
  show ?case using Cons.IH[OF b] by (simp add: offset_Cons)
qed

lemma offset_bound: "list_all2 (<) idx ds \<Longrightarrow> offset idx (strides ds) < prod_list ds"
proof (induction idx ds rule: list_all2_induct)
  case Nil
  then show ?case by (simp add: offset_def)
next
  case (Cons i idx d ds)
  have "i * prod_list ds + offset idx (strides ds) < i * prod_list ds + prod_list ds"
    using Cons.IH by simp
  also have "\<dots> = Suc i * prod_list ds" by simp
  also have "\<dots> \<le> d * prod_list ds" using Cons.hyps(1) by (intro mult_le_mono1) simp
  finally show ?case by (simp add: offset_Cons)
qed

lemma unravel_offset: "list_all2 (<) idx ds \<Longrightarrow> unravel ds (offset idx (strides ds)) = idx"
proof (induction idx ds rule: list_all2_induct)
  case Nil
  then show ?case by simp
next
  case (Cons i idx d ds)
  have r: "offset idx (strides ds) < prod_list ds" using Cons.hyps(2) by (rule offset_bound)
  show ?case using r Cons.IH by (simp add: offset_Cons)
qed

lemma sum_list_perm_upt:
  "mset s = mset [0..<n] \<Longrightarrow> sum_list (map f s) = sum_list (map (f :: nat \<Rightarrow> nat) [0..<n])"
  by (metis mset_map sum_mset_sum_list)

lemma prod_list_perm_upt:
  "mset s = mset [0..<n] \<Longrightarrow> prod_list (map f s) = prod_list (map (f :: nat \<Rightarrow> nat) [0..<n])"
  by (metis mset_map prod_mset_prod_list)

lemma offset_nth:
  "length idx = n \<Longrightarrow> length st = n \<Longrightarrow>
     offset idx st = sum_list (map (\<lambda>i. idx ! i * st ! i) [0..<n])"
proof -
  assume a: "length idx = n" "length st = n"
  have "map2 (*) idx st = map (\<lambda>i. idx ! i * st ! i) [0..<n]"
    using a by (intro nth_equalityI) simp_all
  then show ?thesis by (simp add: offset_def)
qed

lemma offset_map_map:
  "offset (map f s) (map g s) = sum_list (map (\<lambda>i. f i * g i) s)"
  by (induction s) (simp_all add: offset_def)

lemma prod_list_nth_upt: "prod_list (map (\<lambda>i. ds ! i) [0..<length ds]) = prod_list ds"
  by (simp add: map_nth)

subsection \<open>Transposing there and back\<close>

lemma shape_transpose_axes: "shape (transpose_axes a s) = map (\<lambda>j. shape a ! j) s"
  by (simp add: transpose_axes_def Let_def)

lemma prod_list_permuted:
  assumes "mset s = mset [0..<length ds]"
  shows "prod_list (map (\<lambda>j. ds ! j) s) = prod_list (ds :: nat list)"
  using prod_list_perm_upt[OF assms, of "\<lambda>j. ds ! j"] by (simp add: map_nth)

lemma transpose_axes_inverse:
  assumes wf: "wf_array a"
    and s: "mset s = mset [0..<ndim a]"
    and t: "mset t = mset [0..<ndim a]"
    and inv: "\<forall>j<ndim a. s ! (t ! j) = j"
  shows "transpose_axes (transpose_axes a s) t = a"
proof -
  define D where "D = shape a"
  define n where "n = length D"
  define E where "E = map (\<lambda>j. D ! j) s"
  define sD where "sD = strides D"
  define sE where "sE = strides E"
  have nd: "ndim a = n" by (simp add: ndim_def n_def D_def)
  note sf = perm_upt_facts[OF s[unfolded nd]]
  note tf = perm_upt_facts[OF t[unfolded nd]]
  have lenE: "length E = n" by (simp add: E_def sf(1))
  have t_lt: "t ! j < n" if "j < n" for j
    using tf(1,2) that by (metis atLeastLessThan_iff nth_mem)
  have s_lt: "s ! j < n" if "j < n" for j
    using sf(1,2) that by (metis atLeastLessThan_iff nth_mem)
  have inv': "s ! (t ! j) = j" if "j < n" for j using inv that nd by simp
  have shape_back: "map (\<lambda>j. E ! j) t = D"
  proof (rule nth_equalityI)
    show "length (map (\<lambda>j. E ! j) t) = length D" by (simp add: tf(1) n_def)
  next
    fix j assume "j < length (map (\<lambda>j. E ! j) t)"
    then have j: "j < n" by (simp add: tf(1))
    have "map (\<lambda>j. E ! j) t ! j = E ! (t ! j)" using j tf(1) by simp
    also have "\<dots> = D ! (s ! (t ! j))" using t_lt[OF j] sf(1) by (simp add: E_def)
    also have "\<dots> = D ! j" by (simp add: inv'[OF j])
    finally show "map (\<lambda>j. E ! j) t ! j = D ! j" .
  qed
  have prodE: "prod_list E = prod_list D"
    unfolding E_def using s[unfolded nd] by (intro prod_list_permuted) (simp add: n_def)
  have lenflat: "length (flat a) = prod_list D" using wf by (simp add: wf_array_def D_def)
  have elem: "flat a ! offset (unravel E (offset (unravel D k) (map (\<lambda>j. sE ! j) t)))
                         (map (\<lambda>j. sD ! j) s) = flat a ! k"
    and inner: "offset (unravel D k) (map (\<lambda>j. sE ! j) t) < prod_list E"
    if k: "k < prod_list D" for k
  proof -
    define idx where "idx = unravel D k"
    define idx' where "idx' = map (\<lambda>i. idx ! i) s"
    have v: "list_all2 (<) idx D" unfolding idx_def using k by (rule unravel_valid)
    have lidx: "length idx = n" by (simp add: idx_def length_unravel n_def)
    have v': "list_all2 (<) idx' E"
      unfolding list_all2_conv_all_nth
    proof (intro conjI allI impI)
      show "length idx' = length E" by (simp add: idx'_def E_def)
    next
      fix i assume "i < length idx'"
      then have i: "i < n" by (simp add: idx'_def sf(1))
      have "idx ! (s ! i) < D ! (s ! i)"
        using v s_lt[OF i] lidx by (simp add: list_all2_conv_all_nth)
      then show "idx' ! i < E ! i" using i sf(1) by (simp add: idx'_def E_def)
    qed
    have "offset idx' sE = sum_list (map (\<lambda>i. idx' ! i * sE ! i) [0..<n])"
      by (rule offset_nth) (simp_all add: idx'_def sf(1) sE_def length_strides lenE)
    also have "\<dots> = sum_list (map (\<lambda>i. idx' ! i * sE ! i) t)"
      by (rule sum_list_perm_upt[OF t[unfolded nd], symmetric])
    also have "\<dots> = sum_list (map (\<lambda>j. idx' ! (t ! j) * sE ! (t ! j)) [0..<n])"
    proof -
      have "map (\<lambda>i. idx' ! i * sE ! i) t
              = map (\<lambda>i. idx' ! i * sE ! i) (map (\<lambda>j. t ! j) [0..<length t])"
        by (simp only: map_nth)
      then show ?thesis by (simp add: tf(1) comp_def)
    qed
    also have "\<dots> = sum_list (map (\<lambda>j. idx ! j * sE ! (t ! j)) [0..<n])"
    proof -
      have "idx' ! (t ! j) = idx ! j" if "j < n" for j
        using t_lt[OF that] sf(1) inv'[OF that] by (simp add: idx'_def)
      then have "map (\<lambda>j. idx' ! (t ! j) * sE ! (t ! j)) [0..<n]
                   = map (\<lambda>j. idx ! j * sE ! (t ! j)) [0..<n]"
        by (intro map_cong) simp_all
      then show ?thesis by (rule arg_cong)
    qed
    also have "\<dots> = offset idx (map (\<lambda>j. sE ! j) t)"
    proof -
      have a: "offset idx (map (\<lambda>j. sE ! j) t)
              = sum_list (map (\<lambda>i. idx ! i * map (\<lambda>j. sE ! j) t ! i) [0..<n])"
        by (rule offset_nth) (simp_all add: lidx tf(1))
      have b: "map (\<lambda>i. idx ! i * map (\<lambda>j. sE ! j) t ! i) [0..<n]
                   = map (\<lambda>j. idx ! j * sE ! (t ! j)) [0..<n]"
        by (intro map_cong) (simp_all add: tf(1))
      show ?thesis unfolding a b ..
    qed
    finally have first: "offset idx (map (\<lambda>j. sE ! j) t) = offset idx' sE" by simp
    have bound: "offset idx' sE < prod_list E" unfolding sE_def using v' by (rule offset_bound)
    have unr: "unravel E (offset idx' sE) = idx'" unfolding sE_def using v' by (rule unravel_offset)
    have "offset idx' (map (\<lambda>j. sD ! j) s) = sum_list (map (\<lambda>i. idx ! i * sD ! i) s)"
      unfolding idx'_def by (rule offset_map_map)
    also have "\<dots> = sum_list (map (\<lambda>i. idx ! i * sD ! i) [0..<n])"
      by (rule sum_list_perm_upt[OF s[unfolded nd]])
    also have "\<dots> = offset idx sD"
      by (rule offset_nth[symmetric]) (simp_all add: lidx sD_def length_strides n_def)
    also have "\<dots> = k" unfolding idx_def sD_def using k by (rule offset_unravel)
    finally have second: "offset idx' (map (\<lambda>j. sD ! j) s) = k" .
    show "offset (unravel D k) (map (\<lambda>j. sE ! j) t) < prod_list E"
      using first bound by (simp add: idx_def)
    show "flat a ! offset (unravel E (offset (unravel D k) (map (\<lambda>j. sE ! j) t)))
                         (map (\<lambda>j. sD ! j) s) = flat a ! k"
      using first unr second by (simp add: idx_def)
  qed
  have flat_back:
    "map (\<lambda>k. map (\<lambda>k'. flat a ! offset (unravel E k') (map (\<lambda>j. sD ! j) s)) [0..<prod_list E]
                 ! offset (unravel D k) (map (\<lambda>j. sE ! j) t)) [0..<prod_list D] = flat a"
  proof (rule nth_equalityI)
    show "length (map (\<lambda>k. map (\<lambda>k'. flat a ! offset (unravel E k') (map (\<lambda>j. sD ! j) s))
                 [0..<prod_list E] ! offset (unravel D k) (map (\<lambda>j. sE ! j) t)) [0..<prod_list D])
          = length (flat a)" by (simp add: lenflat)
  next
    fix k assume "k < length (map (\<lambda>k. map (\<lambda>k'. flat a ! offset (unravel E k') (map (\<lambda>j. sD ! j) s))
                 [0..<prod_list E] ! offset (unravel D k) (map (\<lambda>j. sE ! j) t)) [0..<prod_list D])"
    then have k: "k < prod_list D" by simp
    show "map (\<lambda>k. map (\<lambda>k'. flat a ! offset (unravel E k') (map (\<lambda>j. sD ! j) s))
                 [0..<prod_list E] ! offset (unravel D k) (map (\<lambda>j. sE ! j) t)) [0..<prod_list D] ! k
          = flat a ! k"
      using k inner[OF k] elem[OF k] by simp
  qed
  have "transpose_axes (transpose_axes a s) t
          = \<lparr>shape = map (\<lambda>j. E ! j) t,
             flat = map (\<lambda>k. map (\<lambda>k'. flat a ! offset (unravel E k') (map (\<lambda>j. sD ! j) s))
                                [0..<prod_list E]
                          ! offset (unravel (map (\<lambda>j. E ! j) t) k) (map (\<lambda>j. sE ! j) t))
                      [0..<prod_list (map (\<lambda>j. E ! j) t)]\<rparr>"
    by (simp add: transpose_axes_def Let_def E_def sD_def sE_def D_def)
  also have "\<dots> = \<lparr>shape = D, flat = flat a\<rparr>"
    unfolding shape_back flat_back ..
  also have "\<dots> = a" by (simp add: D_def)
  finally show ?thesis .
qed

subsection \<open>The axes chosen by the two functions\<close>

lemma filter_upt_single:
  "j < n \<Longrightarrow> P j \<Longrightarrow> \<forall>k<n. P k \<longrightarrow> k = j \<Longrightarrow> filter P [0..<n] = [j]"
proof (induction n)
  case 0
  then show ?case by simp
next
  case (Suc n)
  show ?case
  proof (cases "j = n")
    case True
    have "\<not> P k" if "k < n" for k
    proof
      assume "P k"
      then have "k = j" using Suc.prems(3) that by simp
      then show False using True that by simp
    qed
    then have "\<forall>k\<in>set [0..<n]. \<not> P k" by simp
    then have "filter P [0..<n] = []" by (simp only: filter_empty_conv) 
    then show ?thesis using True Suc.prems(2) by simp
  next
    case False
    then have j: "j < n" using Suc.prems(1) by simp
    have "\<not> P n" using Suc.prems(3) False by auto
    moreover have "filter P [0..<n] = [j]" using Suc.IH[OF j Suc.prems(2)] Suc.prems(3) by simp
    ultimately show ?thesis by simp
  qed
qed

lemma list_index_mem:
  "x \<in> set xs \<Longrightarrow> list_index xs x < length xs \<and> xs ! list_index xs x = x"
  by (induction xs) (auto simp: list_index_def)

lemma collect_map:
  "\<forall>x\<in>set xs. f x = Inr (g x) \<Longrightarrow> collect (map f xs) = Inr (map g xs)"
  by (induction xs) (simp_all add: bind_def)

lemma find_axis_perm:
  assumes t: "mset t = mset [0..<n]" and i: "i < n" and f: "inj f"
  shows "find_axis (map f t) (f i) = Inr (list_index t i)"
proof -
  note tf = perm_upt_facts[OF t]
  have mem: "i \<in> set t" using i tf(2) by simp
  note li = list_index_mem[OF mem]
  have uniq: "\<forall>k<length t. t ! k = i \<longrightarrow> k = list_index t i"
    using tf(3) li by (metis nth_eq_iff_index_eq)
  have "filter (\<lambda>k. map f t ! k = f i) [0..<length (map f t)]
          = filter (\<lambda>k. t ! k = i) [0..<length t]"
    using f by (intro filter_cong) (auto simp: inj_eq)
  also have "\<dots> = [list_index t i]"
    using li uniq by (intro filter_upt_single) simp_all
  finally show ?thesis by (simp add: find_axis_def)
qed

lemma inj_axis_label: "inj (axis_label P)"
  by (rule injI) (auto simp: axis_label_def split: if_splits)

lemma mset_from_nd_axes:
  assumes "mset ps = mset [0..<P]" "mset ss = mset [0..<Q]"
  shows "mset (from_nd_axes ps ss) = mset [0..<P + Q]"
proof -
  have l: "length ps = P" by (rule perm_upt_facts(1)[OF assms(1)])
  have "mset (map (\<lambda>x. x + P) ss) = mset (map (\<lambda>x. x + P) [0..<Q])"
    using assms(2) by (metis mset_map)
  then show ?thesis
    unfolding from_nd_axes_def l upt_split_map[of P Q]
    using assms(1) by simp
qed

lemma labels_from_nd_axes:
  assumes "mset ps = mset [0..<P]" "mset ss = mset [0..<Q]"
  shows "rev (map (\<lambda>i. map Position_Dimension [0..<P] ! i) ps)
           @ rev (map (\<lambda>i. map Spectral_Dimension [0..<Q] ! i) ss)
         = map (axis_label P) (from_nd_axes ps ss)"
proof -
  note pf = perm_upt_facts[OF assms(1)]
  note sf = perm_upt_facts[OF assms(2)]
  have a: "map (\<lambda>i. map Position_Dimension [0..<P] ! i) ps = map (axis_label P) ps"
    using pf(2) by (intro map_cong) (auto simp: axis_label_def)
  have b: "map (\<lambda>i. map Spectral_Dimension [0..<Q] ! i) ss
             = map (axis_label P) (map (\<lambda>x. x + P) ss)"
    using sf(2) by (auto simp: axis_label_def)
  show ?thesis
    unfolding a b from_nd_axes_def pf(1) by (simp add: rev_map)
qed

lemma all_labels_upt:
  "map Position_Dimension [0..<P] @ map Spectral_Dimension [0..<Q]
     = map (axis_label P) [0..<P + Q]"
  unfolding upt_split_map[of P Q] by (auto simp: axis_label_def)

lemma inverse_axes:
  assumes t: "mset t = mset [0..<n]"
  shows "mset (map (list_index t) [0..<n]) = mset [0..<n]"
    and "\<forall>j<n. map (list_index t) [0..<n] ! (t ! j) = j"
proof -
  note tf = perm_upt_facts[OF t]
  have t_lt: "t ! j < n" if "j < n" for j
    using tf(1,2) that by (metis atLeastLessThan_iff nth_mem)
  have li: "list_index t (t ! j) = j" if "j < n" for j
    using list_index_nth[OF tf(3), of j] that tf(1) by simp
  have "mset (map (list_index t) [0..<n]) = mset (map (list_index t) t)"
    using t by (metis mset_map)
  also have "map (list_index t) t = map (list_index t) (map (\<lambda>j. t ! j) [0..<length t])"
    by (simp only: map_nth)
  also have "\<dots> = map (\<lambda>j. j) [0..<n]"
    unfolding map_map tf(1) by (intro map_cong) (simp_all add: li)
  finally show "mset (map (list_index t) [0..<n]) = mset [0..<n]" by simp
  show "\<forall>j<n. map (list_index t) [0..<n] ! (t ! j) = j"
    using t_lt li by simp
qed

lemma swap_axes_to_nd:
  assumes "mset ps = mset [0..<P]" "mset ss = mset [0..<Q]"
  shows "collect (map (find_axis (rev (map (\<lambda>i. map Position_Dimension [0..<P] ! i) ps)
                                   @ rev (map (\<lambda>i. map Spectral_Dimension [0..<Q] ! i) ss)))
                   (map Position_Dimension [0..<P] @ map Spectral_Dimension [0..<Q]))
         = Inr (map (list_index (from_nd_axes ps ss)) [0..<P + Q])"
proof -
  note t = mset_from_nd_axes[OF assms]
  have "collect (map (\<lambda>i. find_axis (map (axis_label P) (from_nd_axes ps ss)) (axis_label P i))
                  [0..<P + Q])
        = Inr (map (list_index (from_nd_axes ps ss)) [0..<P + Q])"
    by (rule collect_map) (simp add: find_axis_perm[OF t _ inj_axis_label])
  then show ?thesis
    unfolding labels_from_nd_axes[OF assms] all_labels_upt map_map comp_def .
qed

lemma spec_like_wide: "nrows m \<le> ncols m \<Longrightarrow> spec_like m = m"
  by (simp add: spec_like_def)

lemma length_sorted_dims:
  "is_argsort argsort \<Longrightarrow> length (sorted_dims argsort m) = nrows (spec_like m)"
  by (simp add: sorted_dims_def length_get_sort_order)

lemma prod_list_sorted_dims:
  assumes "is_argsort argsort"
  shows "prod_list (sorted_dims argsort m) = prod_list (map n_unique (mrows (spec_like m)))"
  unfolding sorted_dims_def mrows_def
  using prod_list_perm_upt[OF mset_get_sort_order[OF assms, of m],
      of "\<lambda>i. n_unique (mrow (spec_like m) i)"]
  by (simp add: comp_def)

subsection \<open>\<^verbatim>\<open>reshape_to_n_dims\<close>, then \<^verbatim>\<open>reshape_from_n_dims\<close>\<close>

text \<open>
  C1 fails on the code: a main array of one position and two spectroscopic steps, with
  the index matrices \<open>[[0]]\<close> and \<open>[[0, 1]]\<close>, is reshaped by \<^const>\<open>reshape_to_n_dims\<close> with
  status True into an array of shape \<open>[1, 2]\<close>; on that array and the same index matrices
  \<^const>\<open>reshape_from_n_dims\<close> raises ValueError. The array has as many axes as the index
  matrices have dimensions, so the test for a squeezed axis (\<^verbatim>\<open>ds_pos.shape[1] +
  ds_spec.shape[0] != data_n_dim.ndim\<close>) does not fire; the sort order of the position
  matrix is emptied all the same, because the matrix has a single element, and the
  transposition of a two-dimensional array is asked for with one axis only. Each index
  matrix has a single dimension, so every argsort gives this result
  (\<open>reshape_to_n_dims_single_dimension\<close>, \<open>reshape_from_n_dims_single_dimension\<close>).
\<close>

theorem to_nd_to_2d_fails_on_single_position:
  "reshape_to_n_dims stable_argsort \<lparr>shape = [1, 2], flat = [5, 7 :: int]\<rparr>
      (Some (of_rows 1 [[0]])) (Some (of_rows 2 [[0, 1]])) False False
     = Inr (\<lparr>shape = [1, 2], flat = [5, 7]\<rparr>, Success_True, None)
   \<and> reshape_from_n_dims stable_argsort (\<lambda>_ _. Inl ValueError)
      \<lparr>shape = [1, 2], flat = [5, 7 :: int]\<rparr>
      (Some (of_rows 1 [[0]])) (Some (of_rows 2 [[0, 1]]))
     = Inl ValueError"
  by code_simp

text \<open>
  Away from index matrices of a single element the round trip is exact, whatever the data
  and whatever the argsort. Let the main array be well formed of shape \<open>[N, M]\<close>, the
  position indices \<open>N\<close> by \<open>P\<close> with \<open>0 < P \<le> N\<close>, the spectroscopic indices \<open>Q\<close> by \<open>M\<close> with
  \<open>0 < Q \<le> M\<close>, each index matrix of more than one element, and let the distinct-value
  counts of the dimensions multiply to \<open>N * M\<close>. Then \<^const>\<open>reshape_to_n_dims\<close> (with
  \<^verbatim>\<open>sort_dims=False\<close>) succeeds with status True, and \<^const>\<open>reshape_from_n_dims\<close> on its
  result and the same index matrices returns the original array, element for element and
  in its original shape, with status True.
\<close>

lemma to_nd_then_to_2d:
  fixes h5_main :: "'a ndarray"
  assumes arg: "is_argsort argsort"
    and wf: "wf_array h5_main"
    and sh: "shape h5_main = [nrows p, ncols s]"
    and pdim: "0 < ncols p" "ncols p \<le> nrows p"
    and sdim: "0 < nrows s" "nrows s \<le> ncols s"
    and big: "msize p \<noteq> 1" "msize s \<noteq> 1"
    and fit: "prod_list (map n_unique (mrows (mtranspose p))) * prod_list (map n_unique (mrows s))
                = nrows p * ncols s"
  shows "\<exists>nd labs. reshape_to_n_dims argsort h5_main (Some p) (Some s) get_labels False
                      = Inr (nd, Success_True, labs)
                  \<and> reshape_from_n_dims argsort mk nd (Some p) (Some s) = Inr (h5_main, True)"
proof -
  define P where "P = ncols p"
  define Q where "Q = nrows s"
  define ps where "ps = get_sort_order argsort (mtranspose p)"
  define ss where "ss = get_sort_order argsort s"
  define D where "D = rev (sorted_dims argsort (mtranspose p)) @ rev (sorted_dims argsort s)"
  define t where "t = from_nd_axes ps ss"
  define sg where "sg = map (list_index t) [0..<P + Q]"
  define a where "a = h5_main\<lparr>shape := D\<rparr>"
  define nd where "nd = transpose_axes a sg"
  have slp: "spec_like (mtranspose p) = mtranspose p"
    using pdim(2) by (intro spec_like_wide) (simp add: mtranspose_def)
  have sls: "spec_like s = s" using sdim(2) by (rule spec_like_wide)
  have pos_p: "0 < msize p" using pdim by (simp add: msize_def)
  have pos_s: "0 < msize s" using sdim by (simp add: msize_def)
  have mps: "mset ps = mset [0..<P]"
    unfolding ps_def P_def using mset_get_sort_order[OF arg, of "mtranspose p"]
    by (simp add: slp) (simp add: mtranspose_def)
  have mss: "mset ss = mset [0..<Q]"
    unfolding ss_def Q_def using mset_get_sort_order[OF arg, of s] by (simp add: sls)
  have lps: "length ps = P" by (rule perm_upt_facts(1)[OF mps])
  have mt: "mset t = mset [0..<P + Q]" unfolding t_def by (rule mset_from_nd_axes[OF mps mss])
  have msg: "mset sg = mset [0..<P + Q]" unfolding sg_def by (rule inverse_axes(1)[OF mt])
  have inv: "\<forall>j<P + Q. sg ! (t ! j) = j" unfolding sg_def by (rule inverse_axes(2)[OF mt])
  have lenD: "length D = P + Q"
    by (simp add: D_def length_sorted_dims[OF arg] slp sls P_def Q_def) (simp add: mtranspose_def)
  have prodD: "prod_list D = nrows p * ncols s"
    using fit by (simp add: D_def prod_list_sorted_dims[OF arg] slp sls mult.commute)
  have size_main: "np_size h5_main = nrows p * ncols s" by (simp add: np_size_def sh)
  have resh: "np_reshape h5_main D = Inr a"
    by (simp add: np_reshape_def prodD size_main a_def)
  have nda: "ndim a = P + Q" by (simp add: ndim_def a_def lenD)
  have wfa: "wf_array a" using wf by (simp add: wf_array_def a_def prodD sh)
  have tr1: "np_transpose a sg = Inr nd"
    by (simp add: np_transpose_def nda perm_upt_facts(4)[OF msg] nd_def)
  have swap: "collect (map (find_axis (rev (map (\<lambda>i. map Position_Dimension [0..<P] ! i) ps)
                                   @ rev (map (\<lambda>i. map Spectral_Dimension [0..<Q] ! i) ss)))
                   (map Position_Dimension [0..<P] @ map Spectral_Dimension [0..<Q]))
         = Inr sg"
    unfolding sg_def t_def by (rule swap_axes_to_nd[OF mps mss])
  have to_nd: "reshape_to_n_dims argsort h5_main (Some p) (Some s) get_labels False
      = Inr (nd, Success_True,
             if get_labels
             then Some (map (\<lambda>j. (rev (map (\<lambda>i. map Position_Dimension [0..<P] ! i) ps)
                                   @ rev (map (\<lambda>i. map Spectral_Dimension [0..<Q] ! i) ss)) ! j) sg)
             else None)"
    unfolding reshape_to_n_dims_both[OF sh arg pos_p pos_s] D_def[symmetric] resh sum.case Let_def
      P_def[symmetric] Q_def[symmetric] ps_def[symmetric] ss_def[symmetric]
      if_False swap bind_def tr1
    by simp
  have shnd: "shape nd = map (\<lambda>j. D ! j) sg"
    by (simp add: nd_def shape_transpose_axes a_def)
  have ndimnd: "ndim nd = P + Q"
    by (simp add: ndim_def shnd perm_upt_facts(1)[OF msg])
  have prodnd: "prod_list (shape nd) = nrows p * ncols s"
    unfolding shnd using prod_list_permuted[of sg D] msg lenD prodD by simp
  have anc: "from_nd_ancillaries argsort mk nd (Some p) (Some s) = Inr (p, s)"
    by (simp add: from_nd_ancillaries_def prodnd ndimnd P_def Q_def)
  have tr2: "np_transpose nd t = Inr a"
  proof -
    have "transpose_axes (transpose_axes a sg) t = a"
      using wfa msg mt inv unfolding nda[symmetric] by (rule transpose_axes_inverse)
    then have "transpose_axes nd t = a" by (simp only: nd_def)
    then show ?thesis
      by (simp add: np_transpose_def ndimnd perm_upt_facts(4)[OF mt])
  qed
  have resh2: "np_reshape a [nrows p, ncols s] = Inr h5_main"
  proof -
    have "a\<lparr>shape := shape h5_main\<rparr> = h5_main" by (simp add: a_def)
    then have orig: "a\<lparr>shape := [nrows p, ncols s]\<rparr> = h5_main" by (simp only: sh)
    have "np_size a = nrows p * ncols s" by (simp add: np_size_def a_def prodD)
    then show ?thesis by (simp add: np_reshape_def orig)
  qed
  have two: "\<not> ndim nd < 2" using pdim(1) sdim(1) by (simp add: ndimnd P_def Q_def)
  have from_nd: "reshape_from_n_dims argsort mk nd (Some p) (Some s) = Inr (h5_main, True)"
    unfolding reshape_from_n_dims_def anc
    using two big tr2 resh2
    by (simp add: bind_def Let_def ps_def[symmetric] ss_def[symmetric]
        from_nd_axes_def[symmetric] t_def[symmetric])
  show ?thesis using to_nd from_nd by blast
qed

lemma to_nd_then_to_2d_example:
  "reshape_to_n_dims stable_argsort
      \<lparr>shape = [4, 3], flat = [0, 1, 2, 3, 4, 5, 6, 7, 8, 9, 10, 11 :: int]\<rparr>
      (Some (of_rows 2 [[0, 0], [1, 0], [0, 1], [1, 1]])) (Some (of_rows 3 [[0, 1, 2]]))
      False False
     = Inr (\<lparr>shape = [2, 2, 3], flat = [0, 1, 2, 6, 7, 8, 3, 4, 5, 9, 10, 11]\<rparr>,
            Success_True, None)
   \<and> reshape_from_n_dims stable_argsort (\<lambda>_ _. Inl ValueError)
      \<lparr>shape = [2, 2, 3], flat = [0, 1, 2, 6, 7, 8, 3, 4, 5, 9, 10, 11 :: int]\<rparr>
      (Some (of_rows 2 [[0, 0], [1, 0], [0, 1], [1, 1]])) (Some (of_rows 3 [[0, 1, 2]]))
     = Inr (\<lparr>shape = [4, 3], flat = [0, 1, 2, 3, 4, 5, 6, 7, 8, 9, 10, 11]\<rparr>, True)"
proof -
  let ?m = "\<lparr>shape = [4, 3], flat = [0, 1, 2, 3, 4, 5, 6, 7, 8, 9, 10, 11 :: int]\<rparr>"
  let ?p = "of_rows 2 [[0, 0], [1, 0], [0, 1], [1, 1 :: index]]"
  let ?s = "of_rows 3 [[0, 1, 2 :: index]]"
  have wf: "wf_array ?m" by (simp add: wf_array_def)
  have sh: "shape ?m = [nrows ?p, ncols ?s]" by (simp add: of_rows_def)
  have pd: "0 < ncols ?p" "ncols ?p \<le> nrows ?p" by (simp_all add: of_rows_def)
  have sd: "0 < nrows ?s" "nrows ?s \<le> ncols ?s" by (simp_all add: of_rows_def)
  have big: "msize ?p \<noteq> 1" "msize ?s \<noteq> 1" by (simp_all add: msize_def of_rows_def)
  have fit: "prod_list (map n_unique (mrows (mtranspose ?p))) * prod_list (map n_unique (mrows ?s))
               = nrows ?p * ncols ?s" by code_simp
  obtain nd labs where
    r: "reshape_to_n_dims stable_argsort ?m (Some ?p) (Some ?s) False False
          = Inr (nd, Success_True, labs)"
       "reshape_from_n_dims stable_argsort (\<lambda>_ _. Inl ValueError) nd (Some ?p) (Some ?s)
          = Inr (?m, True)"
    using to_nd_then_to_2d[OF is_argsort_stable wf sh pd sd big fit,
        of False "\<lambda>_ _. Inl ValueError"]
    by blast
  have c: "reshape_to_n_dims stable_argsort ?m (Some ?p) (Some ?s) False False
             = Inr (\<lparr>shape = [2, 2, 3], flat = [0, 1, 2, 6, 7, 8, 3, 4, 5, 9, 10, 11]\<rparr>,
                    Success_True, None)"
    by code_simp
  have "nd = \<lparr>shape = [2, 2, 3], flat = [0, 1, 2, 6, 7, 8, 3, 4, 5, 9, 10, 11]\<rparr>"
    using r(1) c by simp
  then show ?thesis using r(2) c by simp
qed

end
